theory Spec2Isabelle
  imports Main
begin

section \<open>Data model of the lending core\<close>

text \<open>
  The tables of \<^verbatim>\<open>app/models\<close> are lists of rows, in the order the database returns
  them. Primary keys (\<^verbatim>\<open>uuid.uuid4\<close>) are natural numbers. A \<^verbatim>\<open>datetime\<close> is an
  integer number of microseconds, the resolution of Python's \<^verbatim>\<open>datetime\<close>.
  The bookkeeping columns \<^verbatim>\<open>created_at\<close>/\<^verbatim>\<open>updated_at\<close> of copies and carts, which
  no handler reads, are left out.
\<close>

type_synonym uuid = nat
type_synonym datetime = int

definition hours :: "int \<Rightarrow> int" where
  "hours n = n * 3600000000"

definition days :: "int \<Rightarrow> int" where
  "days n = n * 86400000000"

datatype CopyStatus = AVAILABLE | BORROWED | LOST

datatype BorrowStatus = PENDING | ACTIVE | RETURNED | OVERDUE | CANCELLED

datatype ReservationStatus = RES_PENDING | RES_FULFILLED | RES_CANCELLED | RES_EXPIRED

record Book =
  book_id :: uuid
  title :: string

record BookCopy =
  copy_id :: uuid
  copy_book_id :: uuid
  barcode :: string
  copy_status :: CopyStatus

record BorrowRecord =
  br_id :: uuid
  br_copy_id :: uuid
  br_user_id :: uuid
  borrowed_at :: datetime
  due_date :: datetime
  returned_at :: "datetime option"
  br_status :: BorrowStatus
  br_created_at :: datetime

record Reservation =
  res_id :: uuid
  res_user_id :: uuid
  res_book_id :: uuid
  res_status :: ReservationStatus
  reserved_at :: datetime
  expires_at :: datetime
  fulfilled_at :: "datetime option"
  res_created_at :: datetime

record Cart =
  cart_id :: uuid
  cart_user_id :: uuid

record CartItem =
  item_id :: uuid
  item_cart_id :: uuid
  item_book_id :: uuid

record db =
  books :: "Book list"
  book_copies :: "BookCopy list"
  borrow_records :: "BorrowRecord list"
  reservations :: "Reservation list"
  carts :: "Cart list"
  cart_items :: "CartItem list"

text \<open>The request bodies \<^verbatim>\<open>BookCopyUpdate\<close> (a field that is not set is \<open>None\<close>) and
  the entries of \<^verbatim>\<open>failed_books\<close> in a failed checkout.\<close>

record BookCopyUpdate =
  upd_status :: "CopyStatus option"
  upd_barcode :: "string option"

record failed_book =
  fb_book_id :: uuid
  fb_book_title :: string
  fb_reason :: string

text \<open>Every \<^verbatim>\<open>HTTPException\<close> a handler raises, and the two exceptions of the
  persistence layer that the handlers can meet.\<close>

datatype error =
    CopyNotFound
  | CopyNotAvailable CopyStatus
  | NoActiveBorrowRecord
  | BorrowRecordNotFound
  | NotPending
  | AlreadyReturned
  | BookNotFound
  | DuplicateReservation
  | CopiesAvailable
  | ReservationNotFound
  | CannotFulfill ReservationStatus
  | ReservationExpired
  | CartEmpty
  | CheckoutFailed "failed_book list"
  | MultipleResultsFound
  | IntegrityError

section \<open>Queries and row updates\<close>

text \<open>\<^verbatim>\<open>Result.scalar_one_or_none()\<close>: no row, the one row, or an exception.\<close>

fun scalar_one_or_none :: "'a list \<Rightarrow> error + 'a option" where
  "scalar_one_or_none [] = Inr None"
| "scalar_one_or_none [x] = Inr (Some x)"
| "scalar_one_or_none (x # y # zs) = Inl MultipleResultsFound"

text \<open>\<^verbatim>\<open>UPDATE t SET ... WHERE p\<close>, which is also what the unit of work emits for a
  changed attribute of a loaded row (with \<open>p\<close> the primary key).\<close>

definition update_where :: "('a \<Rightarrow> bool) \<Rightarrow> ('a \<Rightarrow> 'a) \<Rightarrow> 'a list \<Rightarrow> 'a list" where
  "update_where p f rows = map (\<lambda>r. if p r then f r else r) rows"

definition set_copy_status :: "uuid \<Rightarrow> CopyStatus \<Rightarrow> BookCopy list \<Rightarrow> BookCopy list" where
  "set_copy_status cid st rows = update_where (\<lambda>c. copy_id c = cid) (\<lambda>c. c\<lparr>copy_status := st\<rparr>) rows"

text \<open>The column default \<^verbatim>\<open>uuid.uuid4\<close> yields a key that no row of the table has.\<close>

definition fresh_id :: "uuid list \<Rightarrow> uuid" where
  "fresh_id ids = Suc (fold max ids 0)"

text \<open>\<^verbatim>\<open>Reservation.is_expired\<close>, with the value of \<^verbatim>\<open>datetime.utcnow()\<close> it reads.\<close>

definition is_expired :: "Reservation \<Rightarrow> datetime \<Rightarrow> bool" where
  "is_expired r now = (res_status r = RES_PENDING \<and> now > expires_at r)"

section \<open>Reservations (\<^verbatim>\<open>api/v1/reservations.py\<close>)\<close>

text \<open>Each handler receives the values of its calls of \<^verbatim>\<open>datetime.utcnow()\<close>, one
  argument per call in the order of the source, and the values of the column defaults
  evaluated when its new row is inserted. It returns its response or error together
  with the committed state.\<close>

definition create_reservation ::
  "uuid \<Rightarrow> uuid \<Rightarrow> datetime \<Rightarrow> datetime \<Rightarrow> datetime \<Rightarrow> db \<Rightarrow> (error + Reservation) \<times> db" where
  "create_reservation user book t_reserved t_expires t_created s =
     (case find (\<lambda>b. book_id b = book) (books s) of
        None \<Rightarrow> (Inl BookNotFound, s)
      | Some _ \<Rightarrow>
          (case scalar_one_or_none
                  (filter (\<lambda>r. res_user_id r = user \<and> res_book_id r = book
                                \<and> res_status r = RES_PENDING) (reservations s)) of
             Inl e \<Rightarrow> (Inl e, s)
           | Inr (Some _) \<Rightarrow> (Inl DuplicateReservation, s)
           | Inr None \<Rightarrow>
               if length (filter (\<lambda>c. copy_book_id c = book \<and> copy_status c = AVAILABLE)
                            (book_copies s)) > 0
               then (Inl CopiesAvailable, s)
               else
                 let new_reservation =
                       \<lparr>res_id = fresh_id (map res_id (reservations s)),
                        res_user_id = user, res_book_id = book, res_status = RES_PENDING,
                        reserved_at = t_reserved, expires_at = t_expires + hours 48,
                        fulfilled_at = None, res_created_at = t_created\<rparr>
                 in (Inr new_reservation,
                     s\<lparr>reservations := reservations s @ [new_reservation]\<rparr>)))"

definition fulfill_reservation ::
  "uuid \<Rightarrow> datetime \<Rightarrow> datetime \<Rightarrow> db \<Rightarrow> (error + Reservation) \<times> db" where
  "fulfill_reservation reservation_id t_check t_fulfilled s =
     (case find (\<lambda>r. res_id r = reservation_id) (reservations s) of
        None \<Rightarrow> (Inl ReservationNotFound, s)
      | Some reservation \<Rightarrow>
          if res_status reservation \<noteq> RES_PENDING
          then (Inl (CannotFulfill (res_status reservation)), s)
          else if is_expired reservation t_check
          then (Inl ReservationExpired,
                s\<lparr>reservations :=
                    update_where (\<lambda>r. res_id r = reservation_id)
                      (\<lambda>r. r\<lparr>res_status := RES_EXPIRED\<rparr>) (reservations s)\<rparr>)
          else (Inr (reservation\<lparr>res_status := RES_FULFILLED,
                                 fulfilled_at := Some t_fulfilled\<rparr>),
                s\<lparr>reservations :=
                    update_where (\<lambda>r. res_id r = reservation_id)
                      (\<lambda>r. r\<lparr>res_status := RES_FULFILLED, fulfilled_at := Some t_fulfilled\<rparr>)
                      (reservations s)\<rparr>))"

section \<open>Book copies (\<^verbatim>\<open>api/v1/book_copies.py\<close>)\<close>

text \<open>\<^verbatim>\<open>update_book_copy\<close> writes every field that the request sets. The column
  \<^verbatim>\<open>barcode\<close> is unique, so the commit fails when another copy has the new barcode.\<close>

definition apply_copy_update :: "BookCopyUpdate \<Rightarrow> BookCopy \<Rightarrow> BookCopy" where
  "apply_copy_update copy_data c =
     (let c1 = (case upd_status copy_data of None \<Rightarrow> c | Some st \<Rightarrow> c\<lparr>copy_status := st\<rparr>)
      in (case upd_barcode copy_data of None \<Rightarrow> c1 | Some b \<Rightarrow> c1\<lparr>barcode := b\<rparr>))"

definition update_book_copy :: "uuid \<Rightarrow> BookCopyUpdate \<Rightarrow> db \<Rightarrow> (error + BookCopy) \<times> db" where
  "update_book_copy cid copy_data s =
     (case find (\<lambda>c. copy_id c = cid) (book_copies s) of
        None \<Rightarrow> (Inl CopyNotFound, s)
      | Some copy \<Rightarrow>
          if (case upd_barcode copy_data of
                None \<Rightarrow> False
              | Some b \<Rightarrow> \<exists>c \<in> set (book_copies s). copy_id c \<noteq> cid \<and> barcode c = b)
          then (Inl IntegrityError, s)
          else (Inr (apply_copy_update copy_data copy),
                s\<lparr>book_copies :=
                    update_where (\<lambda>c. copy_id c = cid) (apply_copy_update copy_data)
                      (book_copies s)\<rparr>))"

definition borrow_book ::
  "uuid \<Rightarrow> uuid \<Rightarrow> datetime \<Rightarrow> datetime \<Rightarrow> datetime \<Rightarrow> db \<Rightarrow> (error + BorrowRecord) \<times> db" where
  "borrow_book cid user due t_borrowed t_created s =
     (case find (\<lambda>c. copy_id c = cid) (book_copies s) of
        None \<Rightarrow> (Inl CopyNotFound, s)
      | Some copy \<Rightarrow>
          if copy_status copy \<noteq> AVAILABLE
          then (Inl (CopyNotAvailable (copy_status copy)), s)
          else
            let borrow_record =
                  \<lparr>br_id = fresh_id (map br_id (borrow_records s)),
                   br_copy_id = cid, br_user_id = user, borrowed_at = t_borrowed,
                   due_date = due, returned_at = None, br_status = ACTIVE,
                   br_created_at = t_created\<rparr>
            in (Inr borrow_record,
                s\<lparr>book_copies := set_copy_status cid BORROWED (book_copies s),
                  borrow_records := borrow_records s @ [borrow_record]\<rparr>))"

text \<open>The head of a book's queue: \<^verbatim>\<open>where(book_id, status == "PENDING")
  .order_by(reserved_at.asc()).limit(1)\<close>; among equal \<^verbatim>\<open>reserved_at\<close> the first row
  of the table.\<close>

definition first_pending_reservation :: "uuid \<Rightarrow> Reservation list \<Rightarrow> Reservation option" where
  "first_pending_reservation book rows =
     (case sort_key reserved_at
             (filter (\<lambda>r. res_book_id r = book \<and> res_status r = RES_PENDING) rows) of
        [] \<Rightarrow> None
      | r # _ \<Rightarrow> Some r)"

text \<open>Lines 227 to 244 of \<^verbatim>\<open>return_book\<close>: what a return does to the reservations
  of the copy's book.\<close>

definition fulfill_on_return ::
  "uuid \<Rightarrow> datetime \<Rightarrow> datetime \<Rightarrow> Reservation list \<Rightarrow> Reservation list" where
  "fulfill_on_return book t_check t_fulfilled rows =
     (case first_pending_reservation book rows of
        None \<Rightarrow> rows
      | Some first_reservation \<Rightarrow>
          if \<not> is_expired first_reservation t_check
          then update_where (\<lambda>r. res_id r = res_id first_reservation)
                 (\<lambda>r. r\<lparr>res_status := RES_FULFILLED, fulfilled_at := Some t_fulfilled\<rparr>) rows
          else rows)"

definition book_copies_return_book ::
  "uuid \<Rightarrow> uuid \<Rightarrow> datetime \<Rightarrow> datetime \<Rightarrow> datetime \<Rightarrow> db \<Rightarrow> (error + BorrowRecord) \<times> db" where
  "book_copies_return_book cid user t_returned t_check t_fulfilled s =
     (case find (\<lambda>c. copy_id c = cid) (book_copies s) of
        None \<Rightarrow> (Inl CopyNotFound, s)
      | Some copy \<Rightarrow>
          (case scalar_one_or_none
                  (filter (\<lambda>r. br_copy_id r = cid \<and> br_user_id r = user \<and> br_status r = ACTIVE)
                     (borrow_records s)) of
             Inl e \<Rightarrow> (Inl e, s)
           | Inr None \<Rightarrow> (Inl NoActiveBorrowRecord, s)
           | Inr (Some borrow_record) \<Rightarrow>
               (Inr (borrow_record\<lparr>returned_at := Some t_returned, br_status := RETURNED\<rparr>),
                s\<lparr>borrow_records :=
                    update_where (\<lambda>r. br_id r = br_id borrow_record)
                      (\<lambda>r. r\<lparr>returned_at := Some t_returned, br_status := RETURNED\<rparr>)
                      (borrow_records s),
                  book_copies := set_copy_status cid AVAILABLE (book_copies s),
                  reservations :=
                    fulfill_on_return (copy_book_id copy) t_check t_fulfilled (reservations s)\<rparr>)))"

section \<open>Borrowing desk (\<^verbatim>\<open>api/v1/borrowing.py\<close>)\<close>

definition confirm_pickup :: "uuid \<Rightarrow> datetime \<Rightarrow> db \<Rightarrow> (error + unit) \<times> db" where
  "confirm_pickup record_id t_pickup s =
     (case find (\<lambda>r. br_id r = record_id) (borrow_records s) of
        None \<Rightarrow> (Inl BorrowRecordNotFound, s)
      | Some record \<Rightarrow>
          if br_status record \<noteq> PENDING then (Inl NotPending, s)
          else (Inr (),
                s\<lparr>borrow_records :=
                    update_where (\<lambda>r. br_id r = record_id)
                      (\<lambda>r. r\<lparr>br_status := ACTIVE, borrowed_at := t_pickup\<rparr>)
                      (borrow_records s)\<rparr>))"

definition borrowing_return_book :: "uuid \<Rightarrow> datetime \<Rightarrow> db \<Rightarrow> (error + unit) \<times> db" where
  "borrowing_return_book record_id t_returned s =
     (case find (\<lambda>r. br_id r = record_id) (borrow_records s) of
        None \<Rightarrow> (Inl BorrowRecordNotFound, s)
      | Some record \<Rightarrow>
          if br_status record = RETURNED then (Inl AlreadyReturned, s)
          else (Inr (),
                s\<lparr>borrow_records :=
                    update_where (\<lambda>r. br_id r = record_id)
                      (\<lambda>r. r\<lparr>br_status := RETURNED, returned_at := Some t_returned\<rparr>)
                      (borrow_records s),
                  book_copies :=
                    set_copy_status (br_copy_id record) AVAILABLE (book_copies s)\<rparr>))"

section \<open>Expiry sweep (\<^verbatim>\<open>services/scheduler.py\<close>)\<close>

text \<open>The body of the loop of \<^verbatim>\<open>_cancel_expired_pickups_in_session\<close> for one record,
  and the function itself. It returns nothing and raises nothing. The guard
  \<^verbatim>\<open>if record.copy_id\<close> always holds, the column being a UUID that is not null.\<close>

definition cancel_pickup :: "BorrowRecord \<Rightarrow> db \<Rightarrow> db" where
  "cancel_pickup record s =
     s\<lparr>borrow_records :=
         update_where (\<lambda>r. br_id r = br_id record) (\<lambda>r. r\<lparr>br_status := CANCELLED\<rparr>)
           (borrow_records s),
       book_copies := set_copy_status (br_copy_id record) AVAILABLE (book_copies s)\<rparr>"

definition cancel_expired_pickups_in_session :: "datetime \<Rightarrow> db \<Rightarrow> db" where
  "cancel_expired_pickups_in_session now s =
     (let expiration_time = now - hours 48;
          expired_records =
            filter (\<lambda>r. br_status r = PENDING \<and> br_created_at r \<le> expiration_time)
              (borrow_records s)
      in if expired_records = [] then s else fold cancel_pickup expired_records s)"

section \<open>Cart checkout (\<^verbatim>\<open>api/v1/cart.py\<close>)\<close>

text \<open>
  The loop of \<^verbatim>\<open>checkout_cart\<close> over the cart's items. It carries the session's
  pending state, the records created and the failures. Whether a query first flushes
  the pending changes is a setting of the session factory (\<^verbatim>\<open>app/database.py\<close>; the
  test suite switches it off), here the parameter \<open>autoflush\<close>: with it the query for
  an available copy sees the copies taken earlier in the loop, without it the query
  sees the state \<open>s0\<close> at the start of the transaction. An exception of the database
  inside the loop is not modelled. \<open>stamps k\<close> are the defaults
  \<^verbatim>\<open>borrowed_at\<close> and \<^verbatim>\<open>created_at\<close> of the \<open>k\<close>-th record created.
\<close>

fun checkout_items ::
  "bool \<Rightarrow> db \<Rightarrow> uuid \<Rightarrow> datetime \<Rightarrow> (nat \<Rightarrow> datetime \<times> datetime) \<Rightarrow> CartItem list
   \<Rightarrow> db \<times> BorrowRecord list \<times> failed_book list \<Rightarrow> db \<times> BorrowRecord list \<times> failed_book list" where
  "checkout_items autoflush s0 user due stamps [] acc = acc"
| "checkout_items autoflush s0 user due stamps (cart_item # rest) (cur, borrow_recs, failed_books) =
     (case find (\<lambda>c. copy_book_id c = item_book_id cart_item \<and> copy_status c = AVAILABLE)
             (book_copies (if autoflush then cur else s0)) of
        None \<Rightarrow>
          checkout_items autoflush s0 user due stamps rest
            (cur, borrow_recs,
             failed_books @
               [\<lparr>fb_book_id = item_book_id cart_item,
                 fb_book_title =
                   (case find (\<lambda>b. book_id b = item_book_id cart_item) (books cur) of
                      Some book \<Rightarrow> title book
                    | None \<Rightarrow> ''Unknown''),
                 fb_reason = ''No available copies''\<rparr>])
      | Some copy \<Rightarrow>
          let borrow_record =
                \<lparr>br_id = fresh_id (map br_id (borrow_records cur)),
                 br_copy_id = copy_id copy, br_user_id = user,
                 borrowed_at = fst (stamps (length borrow_recs)),
                 due_date = due, returned_at = None, br_status = PENDING,
                 br_created_at = snd (stamps (length borrow_recs))\<rparr>
          in checkout_items autoflush s0 user due stamps rest
               (cur\<lparr>book_copies := set_copy_status (copy_id copy) BORROWED (book_copies cur),
                    borrow_records := borrow_records cur @ [borrow_record]\<rparr>,
                borrow_recs @ [borrow_record], failed_books))"

definition checkout_cart ::
  "bool \<Rightarrow> uuid \<Rightarrow> datetime option \<Rightarrow> datetime \<Rightarrow> (nat \<Rightarrow> datetime \<times> datetime) \<Rightarrow> db
   \<Rightarrow> (error + BorrowRecord list) \<times> db" where
  "checkout_cart autoflush user requested_due now stamps s =
     (case find (\<lambda>c. cart_user_id c = user) (carts s) of
        None \<Rightarrow> (Inl CartEmpty, s)
      | Some cart \<Rightarrow>
          let items = filter (\<lambda>i. item_cart_id i = cart_id cart) (cart_items s) in
          if items = [] then (Inl CartEmpty, s)
          else
            let due = (case requested_due of Some d \<Rightarrow> d | None \<Rightarrow> now + days 14) in
            (case checkout_items autoflush s user due stamps items (s, [], []) of
               (cur, borrow_recs, failed_books) \<Rightarrow>
                 if failed_books \<noteq> [] then (Inl (CheckoutFailed failed_books), s)
                 else (Inr borrow_recs,
                       cur\<lparr>cart_items :=
                             filter (\<lambda>i. item_cart_id i \<noteq> cart_id cart) (cart_items cur)\<rparr>)))"

section \<open>Consistency of copies and loans\<close>

text \<open>The loans of a copy that are not finished, the invariant as the specification
  words it, and the form that is inductive: a borrowed copy has exactly one open loan,
  every other copy none, and the primary keys are keys.\<close>

definition open_loans :: "uuid \<Rightarrow> BorrowRecord list \<Rightarrow> BorrowRecord list" where
  "open_loans cid rows =
     filter (\<lambda>r. br_copy_id r = cid \<and> (br_status r = PENDING \<or> br_status r = ACTIVE)) rows"

definition copy_loan_invariant :: "db \<Rightarrow> bool" where
  "copy_loan_invariant s =
     list_all (\<lambda>c. (copy_status c = BORROWED) = (length (open_loans (copy_id c) (borrow_records s)) = 1))
       (book_copies s)"

definition keys_unique :: "db \<Rightarrow> bool" where
  "keys_unique s =
     (distinct (map copy_id (book_copies s)) \<and> distinct (map br_id (borrow_records s)))"

definition lending_consistent :: "db \<Rightarrow> bool" where
  "lending_consistent s =
     (keys_unique s \<and>
      list_all (\<lambda>c. length (open_loans (copy_id c) (borrow_records s))
                     = (if copy_status c = BORROWED then 1 else 0))
        (book_copies s))"

text \<open>The operations that write copies or borrow records, as requests with their
  arguments, and the state each one commits.\<close>

datatype request =
    WalkInBorrow uuid uuid datetime datetime datetime
  | Checkout bool uuid "datetime option" datetime "nat \<Rightarrow> datetime \<times> datetime"
  | CopyReturn uuid uuid datetime datetime datetime
  | ConfirmPickup uuid datetime
  | DeskReturn uuid datetime
  | Sweep datetime
  | CopyUpdate uuid BookCopyUpdate

fun perform :: "request \<Rightarrow> db \<Rightarrow> db" where
  "perform (WalkInBorrow cid user due t_borrowed t_created) s =
     snd (borrow_book cid user due t_borrowed t_created s)"
| "perform (Checkout autoflush user requested_due now stamps) s =
     snd (checkout_cart autoflush user requested_due now stamps s)"
| "perform (CopyReturn cid user t_returned t_check t_fulfilled) s =
     snd (book_copies_return_book cid user t_returned t_check t_fulfilled s)"
| "perform (ConfirmPickup record_id t_pickup) s = snd (confirm_pickup record_id t_pickup s)"
| "perform (DeskReturn record_id t_returned) s = snd (borrowing_return_book record_id t_returned s)"
| "perform (Sweep now) s = cancel_expired_pickups_in_session now s"
| "perform (CopyUpdate cid copy_data) s = snd (update_book_copy cid copy_data s)"

text \<open>The requests for which the consistency is kept: a checkout whose queries see the
  copies taken earlier in the same call, or whose cart names no book twice; a return at
  the desk of a record that is PENDING or ACTIVE (or RETURNED, which is refused); an
  update of a copy that does not set the status; and every request of the other kinds.\<close>

fun keeps_consistency :: "request \<Rightarrow> db \<Rightarrow> bool" where
  "keeps_consistency (Checkout autoflush user requested_due now stamps) s =
     (autoflush \<or>
      (case find (\<lambda>c. cart_user_id c = user) (carts s) of
         None \<Rightarrow> True
       | Some cart \<Rightarrow>
           distinct (map item_book_id
                       (filter (\<lambda>i. item_cart_id i = cart_id cart) (cart_items s)))))"
| "keeps_consistency (DeskReturn record_id t_returned) s =
     (case find (\<lambda>r. br_id r = record_id) (borrow_records s) of
        None \<Rightarrow> True
      | Some record \<Rightarrow>
          br_status record = PENDING \<or> br_status record = ACTIVE \<or> br_status record = RETURNED)"
| "keeps_consistency (CopyUpdate cid copy_data) s = (upd_status copy_data = None)"
| "keeps_consistency _ s = True"

text \<open>A history of requests, performed in order, and the condition that each request
  of the history is of the kind above in the state it meets.\<close>

fun perform_all :: "request list \<Rightarrow> db \<Rightarrow> db" where
  "perform_all [] s = s"
| "perform_all (rq # rqs) s = perform_all rqs (perform rq s)"

fun all_keep_consistency :: "request list \<Rightarrow> db \<Rightarrow> bool" where
  "all_keep_consistency [] s = True"
| "all_keep_consistency (rq # rqs) s =
     (keeps_consistency rq s \<and> all_keep_consistency rqs (perform rq s))"

section \<open>Example states\<close>

text \<open>A book whose only copy is on loan to user 10, with two users waiting: the first
  reservation expires after 48 hours, the second was made a day later.\<close>

definition ex_queue_db :: db where
  "ex_queue_db =
     \<lparr>books = [\<lparr>book_id = 1, title = ''Dune''\<rparr>],
      book_copies = [\<lparr>copy_id = 1, copy_book_id = 1, barcode = ''BC-001'', copy_status = BORROWED\<rparr>],
      borrow_records =
        [\<lparr>br_id = 1, br_copy_id = 1, br_user_id = 10, borrowed_at = 0, due_date = days 14,
          returned_at = None, br_status = ACTIVE, br_created_at = 0\<rparr>],
      reservations =
        [\<lparr>res_id = 1, res_user_id = 11, res_book_id = 1, res_status = RES_PENDING,
          reserved_at = 0, expires_at = hours 48, fulfilled_at = None, res_created_at = 0\<rparr>,
         \<lparr>res_id = 2, res_user_id = 12, res_book_id = 1, res_status = RES_PENDING,
          reserved_at = hours 24, expires_at = hours 72, fulfilled_at = None,
          res_created_at = hours 24\<rparr>],
      carts = [], cart_items = []\<rparr>"

text \<open>Two copies held by pending pickups, created at time 0 and 40 hours later.\<close>

definition ex_sweep_db :: db where
  "ex_sweep_db =
     \<lparr>books = [\<lparr>book_id = 1, title = ''Dune''\<rparr>, \<lparr>book_id = 2, title = ''Emma''\<rparr>],
      book_copies =
        [\<lparr>copy_id = 1, copy_book_id = 1, barcode = ''BC-001'', copy_status = BORROWED\<rparr>,
         \<lparr>copy_id = 2, copy_book_id = 2, barcode = ''BC-002'', copy_status = BORROWED\<rparr>],
      borrow_records =
        [\<lparr>br_id = 1, br_copy_id = 1, br_user_id = 10, borrowed_at = 0, due_date = days 14,
          returned_at = None, br_status = PENDING, br_created_at = 0\<rparr>,
         \<lparr>br_id = 2, br_copy_id = 2, br_user_id = 10, borrowed_at = hours 40,
          due_date = days 14, returned_at = None, br_status = PENDING,
          br_created_at = hours 40\<rparr>],
      reservations = [], carts = [], cart_items = []\<rparr>"

text \<open>User 10 has both books in the cart and each book has one copy on the shelf; in
  the second state user 20 has walked in and borrowed the copy of the second book.\<close>

definition ex_cart_db :: db where
  "ex_cart_db =
     \<lparr>books = [\<lparr>book_id = 1, title = ''Dune''\<rparr>, \<lparr>book_id = 2, title = ''Emma''\<rparr>],
      book_copies =
        [\<lparr>copy_id = 1, copy_book_id = 1, barcode = ''BC-001'', copy_status = AVAILABLE\<rparr>,
         \<lparr>copy_id = 2, copy_book_id = 2, barcode = ''BC-002'', copy_status = AVAILABLE\<rparr>],
      borrow_records = [], reservations = [],
      carts = [\<lparr>cart_id = 1, cart_user_id = 10\<rparr>],
      cart_items =
        [\<lparr>item_id = 1, item_cart_id = 1, item_book_id = 1\<rparr>,
         \<lparr>item_id = 2, item_cart_id = 1, item_book_id = 2\<rparr>]\<rparr>"

definition ex_cart_taken_db :: db where
  "ex_cart_taken_db = snd (borrow_book 2 20 (days 14) 0 0 ex_cart_db)"

text \<open>The librarian has marked the copy on loan as lost.\<close>

definition ex_lost_db :: db where
  "ex_lost_db =
     snd (update_book_copy 1 \<lparr>upd_status = Some LOST, upd_barcode = None\<rparr> ex_queue_db)"

section \<open>Facts about the queries\<close>

lemma fold_max_ge: "fold max ids (a::nat) \<ge> a"
proof (induction ids arbitrary: a)
  case Nil then show ?case by simp
next
  case (Cons y ys)
  have "a \<le> max y a" by simp
  also have "\<dots> \<le> fold max ys (max y a)" by (rule Cons.IH)
  finally show ?case by simp
qed

lemma fold_max_mem: "x \<in> set ids \<Longrightarrow> x \<le> fold max ids (a::nat)"
proof (induction ids arbitrary: a)
  case Nil then show ?case by simp
next
  case (Cons y ys)
  show ?case
  proof (cases "x = y")
    case True
    have "max y a \<le> fold max ys (max y a)" by (rule fold_max_ge)
    with True show ?thesis by simp
  next
    case False with Cons show ?thesis by simp
  qed
qed

lemma fresh_id_notin: "fresh_id ids \<notin> set ids"
  unfolding fresh_id_def using fold_max_mem[of "Suc (fold max ids 0)" ids 0] by auto

lemma find_update_where_key:
  "(\<And>x. key (f x) = key x) \<Longrightarrow>
   find (\<lambda>r. key r = k) (update_where (\<lambda>r. key r = k) f rows)
     = map_option f (find (\<lambda>r. key r = k) rows)"
  by (induction rows) (auto simp: update_where_def)

lemma update_where_rows:
  "list_all2 (\<lambda>a b. if p a then b = f a else b = a) rows (update_where p f rows)"
  by (simp add: update_where_def list_all2_map2 list_all2_same)

lemma update_where_keys:
  "(\<And>x. key (f x) = key x) \<Longrightarrow> map key (update_where p f rows) = map key rows"
  by (induction rows) (simp_all add: update_where_def)

lemma update_where_mem:
  "c \<in> set (update_where p f rows) \<Longrightarrow> \<exists>a \<in> set rows. c = (if p a then f a else a)"
  unfolding update_where_def set_map by blast

lemma set_copy_status_rows:
  "list_all2 (\<lambda>a b. if copy_id a = cid then b = a\<lparr>copy_status := st\<rparr> else b = a)
     rows (set_copy_status cid st rows)"
  unfolding set_copy_status_def by (rule update_where_rows)

lemma set_copy_status_hit:
  assumes "c \<in> set (set_copy_status cid st rows)" and "copy_id c = cid"
  shows "copy_status c = st"
proof -
  from assms(1) obtain a where a: "c = (if copy_id a = cid then a\<lparr>copy_status := st\<rparr> else a)"
    unfolding set_copy_status_def using update_where_mem by fast
  show ?thesis
  proof (cases "copy_id a = cid")
    case True with a show ?thesis by simp
  next
    case False with a assms(2) show ?thesis by simp
  qed
qed

lemma fulfill_reservation_Inr:
  "fulfill_reservation rid t_check t s = (Inr r', s') \<Longrightarrow>
   s' = s\<lparr>reservations :=
        update_where (\<lambda>r. res_id r = rid)
          (\<lambda>r. r\<lparr>res_status := RES_FULFILLED, fulfilled_at := Some t\<rparr>) (reservations s)\<rparr>"
  by (simp add: fulfill_reservation_def split: option.splits if_splits)

lemma book_copies_return_book_Inr:
  "book_copies_return_book cid user t_returned t_check t s = (Inr rec, s'') \<Longrightarrow>
   \<exists>copy br. find (\<lambda>c. copy_id c = cid) (book_copies s) = Some copy
     \<and> filter (\<lambda>r. br_copy_id r = cid \<and> br_user_id r = user \<and> br_status r = ACTIVE)
                     (borrow_records s) = [br]
     \<and> rec = br\<lparr>returned_at := Some t_returned, br_status := RETURNED\<rparr>
     \<and> s'' = s\<lparr>borrow_records :=
                    update_where (\<lambda>r. br_id r = br_id br)
                      (\<lambda>r. r\<lparr>returned_at := Some t_returned, br_status := RETURNED\<rparr>)
                      (borrow_records s),
                  book_copies := set_copy_status cid AVAILABLE (book_copies s),
                  reservations :=
                    fulfill_on_return (copy_book_id copy) t_check t (reservations s)\<rparr>"
proof -
  assume a: "book_copies_return_book cid user t_returned t_check t s = (Inr rec, s'')"
  let ?rs = "filter (\<lambda>r. br_copy_id r = cid \<and> br_user_id r = user \<and> br_status r = ACTIVE)
                     (borrow_records s)"
  from a obtain copy where c: "find (\<lambda>c. copy_id c = cid) (book_copies s) = Some copy"
    by (cases "find (\<lambda>c. copy_id c = cid) (book_copies s)") (simp_all add: book_copies_return_book_def)
  from a c obtain br where b: "scalar_one_or_none ?rs = Inr (Some br)"
    by (cases "scalar_one_or_none ?rs") (auto simp add: book_copies_return_book_def split: option.splits)
  then have "?rs = [br]" by (cases ?rs rule: scalar_one_or_none.cases) simp_all
  with a b c show ?thesis by (simp add: book_copies_return_book_def)
qed

lemma borrowing_return_book_found:
  assumes "find (\<lambda>x. br_id x = rid) (borrow_records s) = Some r"
  shows "borrowing_return_book rid t s
     = (if br_status r = RETURNED then (Inl AlreadyReturned, s)
        else (Inr (),
              s\<lparr>borrow_records :=
                  update_where (\<lambda>x. br_id x = rid)
                    (\<lambda>x. x\<lparr>br_status := RETURNED, returned_at := Some t\<rparr>) (borrow_records s),
                book_copies := set_copy_status (br_copy_id r) AVAILABLE (book_copies s)\<rparr>))"
  using assms by (simp add: borrowing_return_book_def)

lemma set_copy_status_noop:
  assumes "\<forall>c \<in> set rows. copy_id c = cid \<longrightarrow> copy_status c = st"
  shows "set_copy_status cid st rows = rows"
proof -
  have "\<And>c. c \<in> set rows \<Longrightarrow> (if copy_id c = cid then c\<lparr>copy_status := st\<rparr> else c) = c"
  proof -
    fix c assume "c \<in> set rows"
    with assms have "copy_id c = cid \<longrightarrow> copy_status c = st" by blast
    then show "(if copy_id c = cid then c\<lparr>copy_status := st\<rparr> else c) = c"
      by (cases "copy_id c = cid") simp_all
  qed
  then show ?thesis
    unfolding set_copy_status_def update_where_def by (simp add: map_idI)
qed

lemma first_pending_reservation_None:
  "(first_pending_reservation book rows = None)
     = (\<not> (\<exists>r \<in> set rows. res_book_id r = book \<and> res_status r = RES_PENDING))"
proof -
  let ?F = "filter (\<lambda>r. res_book_id r = book \<and> res_status r = RES_PENDING) rows"
  have "(first_pending_reservation book rows = None) = (sort_key reserved_at ?F = [])"
    unfolding first_pending_reservation_def by (cases "sort_key reserved_at ?F") simp_all
  also have "\<dots> = (set (sort_key reserved_at ?F) = {})" by (simp only: set_empty)
  also have "\<dots> = (set ?F = {})" by (simp only: set_sort)
  also have "\<dots> = (\<not> (\<exists>r \<in> set rows. res_book_id r = book \<and> res_status r = RES_PENDING))"
    unfolding set_empty filter_empty_conv by blast
  finally show ?thesis .
qed

lemma first_pending_reservation_Some:
  assumes "first_pending_reservation book rows = Some h"
  shows "h \<in> set rows \<and> res_book_id h = book \<and> res_status h = RES_PENDING
         \<and> (\<forall>x \<in> set rows. res_book_id x = book \<and> res_status x = RES_PENDING
               \<longrightarrow> reserved_at h \<le> reserved_at x)"
proof -
  let ?F = "filter (\<lambda>r. res_book_id r = book \<and> res_status r = RES_PENDING) rows"
  from assms obtain rest where srt: "sort_key reserved_at ?F = h # rest"
    unfolding first_pending_reservation_def
    by (cases "sort_key reserved_at ?F") simp_all
  have "h \<in> set (sort_key reserved_at ?F)" unfolding srt by simp
  then have hF: "h \<in> set ?F" by (simp only: set_sort)
  have "sorted (map reserved_at (sort_key reserved_at ?F))" by (rule sorted_sort_key)
  then have least: "\<forall>y \<in> set rest. reserved_at h \<le> reserved_at y"
    unfolding srt by simp
  have "\<forall>x \<in> set ?F. reserved_at h \<le> reserved_at x"
  proof
    fix x assume "x \<in> set ?F"
    then have "x \<in> set (sort_key reserved_at ?F)" by (simp only: set_sort)
    then have "x = h \<or> x \<in> set rest" unfolding srt by simp
    with least show "reserved_at h \<le> reserved_at x" by blast
  qed
  with hF show ?thesis by simp
qed

section \<open>The librarian's fulfil endpoint\<close>

text \<open>
  C10. When \<^verbatim>\<open>fulfill_reservation\<close> meets a PENDING reservation whose
  \<^verbatim>\<open>expires_at\<close> has passed, it answers with the expired-reservation error and the
  committed state holds the reservation as EXPIRED (so the state has changed, in the
  reservation only); on every other error of the operation the state is the one before.
\<close>

theorem fulfill_reservation_expired_is_committed:
  "(find (\<lambda>x. res_id x = rid) (reservations s) = Some r \<and> res_status r = RES_PENDING
      \<and> expires_at r < t_check
    \<longrightarrow> fst (fulfill_reservation rid t_check t_fulfilled s) = Inl ReservationExpired
        \<and> find (\<lambda>x. res_id x = rid)
              (reservations (snd (fulfill_reservation rid t_check t_fulfilled s)))
            = Some (r\<lparr>res_status := RES_EXPIRED\<rparr>)
        \<and> snd (fulfill_reservation rid t_check t_fulfilled s) \<noteq> s
        \<and> book_copies (snd (fulfill_reservation rid t_check t_fulfilled s)) = book_copies s
        \<and> borrow_records (snd (fulfill_reservation rid t_check t_fulfilled s)) = borrow_records s)
   \<and> (\<forall>e. fst (fulfill_reservation rid t_check t_fulfilled s) = Inl e \<and> e \<noteq> ReservationExpired
        \<longrightarrow> snd (fulfill_reservation rid t_check t_fulfilled s) = s)"
proof (intro conjI impI allI)
  assume h: "find (\<lambda>x. res_id x = rid) (reservations s) = Some r \<and> res_status r = RES_PENDING
      \<and> expires_at r < t_check"
  then have ex: "is_expired r t_check" by (simp add: is_expired_def)
  from h ex show "fst (fulfill_reservation rid t_check t_fulfilled s) = Inl ReservationExpired"
    by (simp add: fulfill_reservation_def)
  from h ex show f: "find (\<lambda>x. res_id x = rid)
        (reservations (snd (fulfill_reservation rid t_check t_fulfilled s)))
      = Some (r\<lparr>res_status := RES_EXPIRED\<rparr>)"
    by (simp add: fulfill_reservation_def find_update_where_key)
  show "snd (fulfill_reservation rid t_check t_fulfilled s) \<noteq> s"
  proof
    assume "snd (fulfill_reservation rid t_check t_fulfilled s) = s"
    with f h have "r\<lparr>res_status := RES_EXPIRED\<rparr> = r" by simp
    then have "res_status (r\<lparr>res_status := RES_EXPIRED\<rparr>) = res_status r" by simp
    with h show False by simp
  qed
  from h ex show "book_copies (snd (fulfill_reservation rid t_check t_fulfilled s)) = book_copies s"
    by (simp add: fulfill_reservation_def)
  from h ex show "borrow_records (snd (fulfill_reservation rid t_check t_fulfilled s)) = borrow_records s"
    by (simp add: fulfill_reservation_def)
next
  fix e
  assume "fst (fulfill_reservation rid t_check t_fulfilled s) = Inl e \<and> e \<noteq> ReservationExpired"
  then show "snd (fulfill_reservation rid t_check t_fulfilled s) = s"
    by (auto simp: fulfill_reservation_def split: option.splits if_splits)
qed

theorem fulfill_reservation_expired_is_committed_witness:
  "fst (fulfill_reservation 1 (hours 50) (hours 50) ex_queue_db) = Inl ReservationExpired
   \<and> map res_status (reservations (snd (fulfill_reservation 1 (hours 50) (hours 50) ex_queue_db)))
       = [RES_EXPIRED, RES_PENDING]
   \<and> snd (fulfill_reservation 1 (hours 50) (hours 50) ex_queue_db) \<noteq> ex_queue_db
   \<and> fst (fulfill_reservation 7 (hours 50) (hours 50) ex_queue_db) = Inl ReservationNotFound
   \<and> snd (fulfill_reservation 7 (hours 50) (hours 50) ex_queue_db) = ex_queue_db"
  using fulfill_reservation_expired_is_committed
          [of 1 ex_queue_db "hd (reservations ex_queue_db)" "hours 50" "hours 50"]
        fulfill_reservation_expired_is_committed
          [of 7 ex_queue_db "hd (reservations ex_queue_db)" "hours 50" "hours 50"]
  by (simp add: ex_queue_db_def hours_def fulfill_reservation_def is_expired_def update_where_def)

section \<open>Fulfilment marks the reservation and nothing else\<close>

lemma fulfill_on_return_rows:
  "list_all2 (\<lambda>a b. b = a \<or> b = a\<lparr>res_status := RES_FULFILLED, fulfilled_at := Some t\<rparr>)
     rows (fulfill_on_return book t_check t rows)"
  by (simp add: fulfill_on_return_def update_where_def list_all2_map2 list_all2_same
           split: option.splits)

lemma fulfill_on_return_head:
  "if \<exists>r \<in> set rows. res_book_id r = book \<and> res_status r = RES_PENDING
   then \<exists>h \<in> set rows.
          res_book_id h = book \<and> res_status h = RES_PENDING
          \<and> (\<forall>x \<in> set rows. res_book_id x = book \<and> res_status x = RES_PENDING
                \<longrightarrow> reserved_at h \<le> reserved_at x)
          \<and> (if expires_at h < t_check
              then fulfill_on_return book t_check t rows = rows
              else fulfill_on_return book t_check t rows
                     = map (\<lambda>r. if res_id r = res_id h
                                 then r\<lparr>res_status := RES_FULFILLED, fulfilled_at := Some t\<rparr>
                                 else r)
                         rows)
   else fulfill_on_return book t_check t rows = rows"
proof (cases "\<exists>r \<in> set rows. res_book_id r = book \<and> res_status r = RES_PENDING")
  case False
  then have "first_pending_reservation book rows = None"
    using first_pending_reservation_None[of book rows] by blast
  then have "fulfill_on_return book t_check t rows = rows"
    unfolding fulfill_on_return_def by simp
  with False show ?thesis by (simp only: if_False)
next
  case True
  then have "first_pending_reservation book rows \<noteq> None"
    using first_pending_reservation_None[of book rows] by blast
  then obtain h where h: "first_pending_reservation book rows = Some h" by blast
  note hp = first_pending_reservation_Some[OF h]
  have exp: "is_expired h t_check = (expires_at h < t_check)"
    using hp by (simp add: is_expired_def)
  have "if expires_at h < t_check
        then fulfill_on_return book t_check t rows = rows
        else fulfill_on_return book t_check t rows
               = map (\<lambda>r. if res_id r = res_id h
                           then r\<lparr>res_status := RES_FULFILLED, fulfilled_at := Some t\<rparr>
                           else r)
                   rows"
    unfolding fulfill_on_return_def update_where_def by (simp add: h exp)
  with hp have "\<exists>h \<in> set rows.
          res_book_id h = book \<and> res_status h = RES_PENDING
          \<and> (\<forall>x \<in> set rows. res_book_id x = book \<and> res_status x = RES_PENDING
                \<longrightarrow> reserved_at h \<le> reserved_at x)
          \<and> (if expires_at h < t_check
              then fulfill_on_return book t_check t rows = rows
              else fulfill_on_return book t_check t rows
                     = map (\<lambda>r. if res_id r = res_id h
                                 then r\<lparr>res_status := RES_FULFILLED, fulfilled_at := Some t\<rparr>
                                 else r)
                         rows)"
    by (intro bexI[of _ h]) blast+
  with True show ?thesis by (simp only: if_True)
qed

text \<open>
  C4. A reservation fulfilled by the librarian's endpoint changes in status and
  \<^verbatim>\<open>fulfilled_at\<close> only, and copies and borrow records stay as they were. A return
  through \<^verbatim>\<open>/book-copies/{id}/return\<close> creates no borrow record and opens none, does
  nothing to the copies but set the returned copy to AVAILABLE, where it stays, and of a
  reservation it changes at most status and \<^verbatim>\<open>fulfilled_at\<close>, to FULFILLED and the
  time of fulfilment. The reservations after the return are exactly these: if the copy's
  book has a PENDING reservation and the one with the smallest \<^verbatim>\<open>reserved_at\<close> has not
  expired, that reservation is FULFILLED with \<^verbatim>\<open>fulfilled_at\<close> the time of fulfilment and
  every other reservation is as it was; otherwise all reservations are as they were.
\<close>

theorem fulfilment_only_marks_reservation:
  "(fulfill_reservation rid t_check t s = (Inr r', s')
    \<longrightarrow> book_copies s' = book_copies s \<and> borrow_records s' = borrow_records s
        \<and> list_all2 (\<lambda>a b. if res_id a = rid
                              then b = a\<lparr>res_status := RES_FULFILLED, fulfilled_at := Some t\<rparr>
                              else b = a)
            (reservations s) (reservations s'))
   \<and> (book_copies_return_book cid user t_returned t_check t s = (Inr rec, s'')
    \<longrightarrow> map br_id (borrow_records s'') = map br_id (borrow_records s)
        \<and> (\<forall>b \<in> set (borrow_records s''). br_status b = PENDING \<or> br_status b = ACTIVE
              \<longrightarrow> b \<in> set (borrow_records s))
        \<and> list_all2 (\<lambda>a b. if copy_id a = cid then b = a\<lparr>copy_status := AVAILABLE\<rparr> else b = a)
            (book_copies s) (book_copies s'')
        \<and> (\<forall>c \<in> set (book_copies s''). copy_id c = cid \<longrightarrow> copy_status c = AVAILABLE)
        \<and> list_all2 (\<lambda>a b. b = a \<or> b = a\<lparr>res_status := RES_FULFILLED, fulfilled_at := Some t\<rparr>)
            (reservations s) (reservations s'')
        \<and> (\<exists>copy. find (\<lambda>c. copy_id c = cid) (book_copies s) = Some copy
             \<and> (if \<exists>r \<in> set (reservations s).
                      res_book_id r = copy_book_id copy \<and> res_status r = RES_PENDING
                 then \<exists>h \<in> set (reservations s).
                        res_book_id h = copy_book_id copy \<and> res_status h = RES_PENDING
                        \<and> (\<forall>x \<in> set (reservations s).
                              res_book_id x = copy_book_id copy \<and> res_status x = RES_PENDING
                              \<longrightarrow> reserved_at h \<le> reserved_at x)
                        \<and> (if expires_at h < t_check
                            then reservations s'' = reservations s
                            else reservations s''
                                   = map (\<lambda>r. if res_id r = res_id h
                                               then r\<lparr>res_status := RES_FULFILLED,
                                                      fulfilled_at := Some t\<rparr>
                                               else r)
                                       (reservations s))
                 else reservations s'' = reservations s)))"
proof (intro conjI impI)
  assume "fulfill_reservation rid t_check t s = (Inr r', s')"
  then have s': "s' = s\<lparr>reservations :=
        update_where (\<lambda>r. res_id r = rid)
          (\<lambda>r. r\<lparr>res_status := RES_FULFILLED, fulfilled_at := Some t\<rparr>) (reservations s)\<rparr>"
    by (rule fulfill_reservation_Inr)
  show "book_copies s' = book_copies s" by (simp add: s')
  show "borrow_records s' = borrow_records s" by (simp add: s')
  have "list_all2 (\<lambda>a b. if res_id a = rid
                              then b = a\<lparr>res_status := RES_FULFILLED, fulfilled_at := Some t\<rparr>
                              else b = a)
            (reservations s) (update_where (\<lambda>r. res_id r = rid)
          (\<lambda>r. r\<lparr>res_status := RES_FULFILLED, fulfilled_at := Some t\<rparr>) (reservations s))"
    by (rule update_where_rows)
  then show "list_all2 (\<lambda>a b. if res_id a = rid
                              then b = a\<lparr>res_status := RES_FULFILLED, fulfilled_at := Some t\<rparr>
                              else b = a)
            (reservations s) (reservations s')"
    by (simp add: s')
next
  assume "book_copies_return_book cid user t_returned t_check t s = (Inr rec, s'')"
  from book_copies_return_book_Inr[OF this] obtain copy br where
    cf: "find (\<lambda>c. copy_id c = cid) (book_copies s) = Some copy" and
    "filter (\<lambda>r. br_copy_id r = cid \<and> br_user_id r = user \<and> br_status r = ACTIVE)
                     (borrow_records s) = [br]"
    "rec = br\<lparr>returned_at := Some t_returned, br_status := RETURNED\<rparr>" and
    s'': "s'' = s\<lparr>borrow_records :=
                    update_where (\<lambda>r. br_id r = br_id br)
                      (\<lambda>r. r\<lparr>returned_at := Some t_returned, br_status := RETURNED\<rparr>)
                      (borrow_records s),
                  book_copies := set_copy_status cid AVAILABLE (book_copies s),
                  reservations :=
                    fulfill_on_return (copy_book_id copy) t_check t (reservations s)\<rparr>"
    by (elim exE conjE)
  have recs: "borrow_records s'' = update_where (\<lambda>r. br_id r = br_id br)
                      (\<lambda>r. r\<lparr>returned_at := Some t_returned, br_status := RETURNED\<rparr>)
                      (borrow_records s)"
    by (simp add: s'')
  have cps: "book_copies s'' = set_copy_status cid AVAILABLE (book_copies s)"
    by (simp add: s'')
  have ress: "reservations s'' = fulfill_on_return (copy_book_id copy) t_check t (reservations s)"
    by (simp add: s'')
  show "map br_id (borrow_records s'') = map br_id (borrow_records s)"
    unfolding recs by (rule update_where_keys) simp
  show "\<forall>b \<in> set (borrow_records s''). br_status b = PENDING \<or> br_status b = ACTIVE
              \<longrightarrow> b \<in> set (borrow_records s)"
  proof (intro ballI impI)
    fix b assume b: "b \<in> set (borrow_records s'')" "br_status b = PENDING \<or> br_status b = ACTIVE"
    from b(1) obtain a where a: "a \<in> set (borrow_records s)"
      "b = (if br_id a = br_id br
            then a\<lparr>returned_at := Some t_returned, br_status := RETURNED\<rparr> else a)"
      unfolding recs using update_where_mem by fast
    show "b \<in> set (borrow_records s)"
    proof (cases "br_id a = br_id br")
      case True with a(2) b(2) show ?thesis by simp
    next
      case False with a show ?thesis by simp
    qed
  qed
  show "list_all2 (\<lambda>a b. if copy_id a = cid then b = a\<lparr>copy_status := AVAILABLE\<rparr> else b = a)
            (book_copies s) (book_copies s'')"
    unfolding cps by (rule set_copy_status_rows)
  show "\<forall>c \<in> set (book_copies s''). copy_id c = cid \<longrightarrow> copy_status c = AVAILABLE"
    unfolding cps using set_copy_status_hit by blast
  show "list_all2 (\<lambda>a b. b = a \<or> b = a\<lparr>res_status := RES_FULFILLED, fulfilled_at := Some t\<rparr>)
            (reservations s) (reservations s'')"
    unfolding ress by (rule fulfill_on_return_rows)
  have "if \<exists>r \<in> set (reservations s).
              res_book_id r = copy_book_id copy \<and> res_status r = RES_PENDING
        then \<exists>h \<in> set (reservations s).
               res_book_id h = copy_book_id copy \<and> res_status h = RES_PENDING
               \<and> (\<forall>x \<in> set (reservations s).
                     res_book_id x = copy_book_id copy \<and> res_status x = RES_PENDING
                     \<longrightarrow> reserved_at h \<le> reserved_at x)
               \<and> (if expires_at h < t_check
                   then reservations s'' = reservations s
                   else reservations s''
                          = map (\<lambda>r. if res_id r = res_id h
                                      then r\<lparr>res_status := RES_FULFILLED,
                                             fulfilled_at := Some t\<rparr>
                                      else r)
                              (reservations s))
        else reservations s'' = reservations s"
    unfolding ress by (rule fulfill_on_return_head)
  with cf show "\<exists>copy. find (\<lambda>c. copy_id c = cid) (book_copies s) = Some copy
             \<and> (if \<exists>r \<in> set (reservations s).
                      res_book_id r = copy_book_id copy \<and> res_status r = RES_PENDING
                 then \<exists>h \<in> set (reservations s).
                        res_book_id h = copy_book_id copy \<and> res_status h = RES_PENDING
                        \<and> (\<forall>x \<in> set (reservations s).
                              res_book_id x = copy_book_id copy \<and> res_status x = RES_PENDING
                              \<longrightarrow> reserved_at h \<le> reserved_at x)
                        \<and> (if expires_at h < t_check
                            then reservations s'' = reservations s
                            else reservations s''
                                   = map (\<lambda>r. if res_id r = res_id h
                                               then r\<lparr>res_status := RES_FULFILLED,
                                                      fulfilled_at := Some t\<rparr>
                                               else r)
                                       (reservations s))
                 else reservations s'' = reservations s)"
    by (intro exI[of _ copy] conjI)
qed

theorem fulfilment_only_marks_reservation_witness:
  "fst (fulfill_reservation 2 (hours 50) (hours 51) ex_queue_db)
     = Inr ((hd (tl (reservations ex_queue_db)))\<lparr>res_status := RES_FULFILLED,
                                                    fulfilled_at := Some (hours 51)\<rparr>)
   \<and> book_copies (snd (fulfill_reservation 2 (hours 50) (hours 51) ex_queue_db))
       = book_copies ex_queue_db
   \<and> borrow_records (snd (fulfill_reservation 2 (hours 50) (hours 51) ex_queue_db))
       = borrow_records ex_queue_db
   \<and> fst (book_copies_return_book 1 10 (hours 10) (hours 10) (hours 10) ex_queue_db)
       = Inr ((hd (borrow_records ex_queue_db))\<lparr>returned_at := Some (hours 10),
                                                  br_status := RETURNED\<rparr>)
   \<and> map br_id (borrow_records
          (snd (book_copies_return_book 1 10 (hours 10) (hours 10) (hours 10) ex_queue_db)))
       = map br_id (borrow_records ex_queue_db)
   \<and> map copy_status (book_copies
          (snd (book_copies_return_book 1 10 (hours 10) (hours 10) (hours 10) ex_queue_db)))
       = [AVAILABLE]
   \<and> map res_status (reservations
          (snd (book_copies_return_book 1 10 (hours 10) (hours 10) (hours 10) ex_queue_db)))
       = [RES_FULFILLED, RES_PENDING]
   \<and> map fulfilled_at (reservations
          (snd (book_copies_return_book 1 10 (hours 10) (hours 10) (hours 10) ex_queue_db)))
       = [Some (hours 10), None]"
proof -
  let ?F = "fulfill_reservation 2 (hours 50) (hours 51) ex_queue_db"
  let ?R = "book_copies_return_book 1 10 (hours 10) (hours 10) (hours 10) ex_queue_db"
  let ?r' = "(hd (tl (reservations ex_queue_db)))\<lparr>res_status := RES_FULFILLED,
                                                  fulfilled_at := Some (hours 51)\<rparr>"
  let ?rec = "(hd (borrow_records ex_queue_db))\<lparr>returned_at := Some (hours 10),
                                                br_status := RETURNED\<rparr>"
  let ?c1 = "\<lparr>copy_id = 1, copy_book_id = 1, barcode = ''BC-001'', copy_status = BORROWED\<rparr>"
  let ?r1 = "\<lparr>res_id = 1, res_user_id = 11, res_book_id = 1, res_status = RES_PENDING,
              reserved_at = 0, expires_at = hours 48, fulfilled_at = None,
              res_created_at = 0\<rparr>"
  let ?r2 = "\<lparr>res_id = 2, res_user_id = 12, res_book_id = 1, res_status = RES_PENDING,
              reserved_at = hours 24, expires_at = hours 72, fulfilled_at = None,
              res_created_at = hours 24\<rparr>"
  have f1: "fst ?F = Inr ?r'"
    by (simp add: ex_queue_db_def hours_def fulfill_reservation_def is_expired_def)
  have r1: "fst ?R = Inr ?rec"
    by code_simp
  have f: "?F = (Inr ?r', snd ?F)" using f1 by (intro prod_eqI) simp_all
  have r: "?R = (Inr ?rec, snd ?R)" using r1 by (intro prod_eqI) simp_all
  have c1: "book_copies (snd ?F) = book_copies ex_queue_db
            \<and> borrow_records (snd ?F) = borrow_records ex_queue_db"
    using fulfilment_only_marks_reservation
            [of 2 "hours 50" "hours 51" ex_queue_db ?r' "snd ?F", THEN conjunct1, THEN mp, OF f]
    by blast
  note T = fulfilment_only_marks_reservation
            [of _ "hours 10" "hours 10" ex_queue_db _ _ 1 10 "hours 10" ?rec "snd ?R",
             THEN conjunct2, THEN mp, OF r]
  have c2: "map br_id (borrow_records (snd ?R)) = map br_id (borrow_records ex_queue_db)"
    using T by blast
  have c3: "map copy_status (book_copies (snd ?R)) = [AVAILABLE]"
    by code_simp
  have cf: "find (\<lambda>c. copy_id c = 1) (book_copies ex_queue_db) = Some ?c1"
    by (simp add: ex_queue_db_def)
  have rows: "reservations ex_queue_db = [?r1, ?r2]" by (simp add: ex_queue_db_def)
  have p: "\<exists>r \<in> set (reservations ex_queue_db).
             res_book_id r = copy_book_id ?c1 \<and> res_status r = RES_PENDING"
    by (simp add: ex_queue_db_def)
  from T have "\<exists>copy. find (\<lambda>c. copy_id c = 1) (book_copies ex_queue_db) = Some copy
             \<and> (if \<exists>r \<in> set (reservations ex_queue_db).
                      res_book_id r = copy_book_id copy \<and> res_status r = RES_PENDING
                 then \<exists>h \<in> set (reservations ex_queue_db).
                        res_book_id h = copy_book_id copy \<and> res_status h = RES_PENDING
                        \<and> (\<forall>x \<in> set (reservations ex_queue_db).
                              res_book_id x = copy_book_id copy \<and> res_status x = RES_PENDING
                              \<longrightarrow> reserved_at h \<le> reserved_at x)
                        \<and> (if expires_at h < hours 10
                            then reservations (snd ?R) = reservations ex_queue_db
                            else reservations (snd ?R)
                                   = map (\<lambda>r. if res_id r = res_id h
                                               then r\<lparr>res_status := RES_FULFILLED,
                                                      fulfilled_at := Some (hours 10)\<rparr>
                                               else r)
                                       (reservations ex_queue_db))
                 else reservations (snd ?R) = reservations ex_queue_db)"
    by (elim conjE)
  then obtain copy where
    cc: "find (\<lambda>c. copy_id c = 1) (book_copies ex_queue_db) = Some copy"
    and br: "if \<exists>r \<in> set (reservations ex_queue_db).
                      res_book_id r = copy_book_id copy \<and> res_status r = RES_PENDING
                 then \<exists>h \<in> set (reservations ex_queue_db).
                        res_book_id h = copy_book_id copy \<and> res_status h = RES_PENDING
                        \<and> (\<forall>x \<in> set (reservations ex_queue_db).
                              res_book_id x = copy_book_id copy \<and> res_status x = RES_PENDING
                              \<longrightarrow> reserved_at h \<le> reserved_at x)
                        \<and> (if expires_at h < hours 10
                            then reservations (snd ?R) = reservations ex_queue_db
                            else reservations (snd ?R)
                                   = map (\<lambda>r. if res_id r = res_id h
                                               then r\<lparr>res_status := RES_FULFILLED,
                                                      fulfilled_at := Some (hours 10)\<rparr>
                                               else r)
                                       (reservations ex_queue_db))
                 else reservations (snd ?R) = reservations ex_queue_db"
    by (elim exE conjE)
  from cc cf have ceq: "copy = ?c1" by simp
  from br p have "\<exists>h \<in> set (reservations ex_queue_db).
                        res_book_id h = copy_book_id ?c1 \<and> res_status h = RES_PENDING
                        \<and> (\<forall>x \<in> set (reservations ex_queue_db).
                              res_book_id x = copy_book_id ?c1 \<and> res_status x = RES_PENDING
                              \<longrightarrow> reserved_at h \<le> reserved_at x)
                        \<and> (if expires_at h < hours 10
                            then reservations (snd ?R) = reservations ex_queue_db
                            else reservations (snd ?R)
                                   = map (\<lambda>r. if res_id r = res_id h
                                               then r\<lparr>res_status := RES_FULFILLED,
                                                      fulfilled_at := Some (hours 10)\<rparr>
                                               else r)
                                       (reservations ex_queue_db))"
    unfolding ceq by (simp only: if_True)
  then obtain h where h: "h \<in> set (reservations ex_queue_db)"
    and "res_book_id h = copy_book_id ?c1" and "res_status h = RES_PENDING"
    and least: "\<forall>x \<in> set (reservations ex_queue_db).
        res_book_id x = copy_book_id ?c1 \<and> res_status x = RES_PENDING
        \<longrightarrow> reserved_at h \<le> reserved_at x"
    and upd: "if expires_at h < hours 10
     then reservations (snd ?R) = reservations ex_queue_db
     else reservations (snd ?R)
            = map (\<lambda>r. if res_id r = res_id h
                        then r\<lparr>res_status := RES_FULFILLED, fulfilled_at := Some (hours 10)\<rparr>
                        else r)
                (reservations ex_queue_db)"
    by (elim bexE conjE)
  have in1: "?r1 \<in> set (reservations ex_queue_db)" unfolding rows by simp
  have p1: "res_book_id ?r1 = copy_book_id ?c1 \<and> res_status ?r1 = RES_PENDING" by simp
  from least in1 p1 have le: "reserved_at h \<le> reserved_at ?r1" by blast
  have lt: "reserved_at ?r1 < reserved_at ?r2" by (simp add: hours_def)
  from h have "h = ?r1 \<or> h = ?r2" unfolding rows by simp
  then have "h = ?r1"
  proof
    assume "h = ?r1" then show ?thesis .
  next
    assume "h = ?r2"
    with le lt show ?thesis by simp
  qed
  moreover have "\<not> expires_at ?r1 < hours 10" by (simp add: hours_def)
  ultimately have "reservations (snd ?R)
            = map (\<lambda>r. if res_id r = res_id ?r1
                        then r\<lparr>res_status := RES_FULFILLED, fulfilled_at := Some (hours 10)\<rparr>
                        else r)
                (reservations ex_queue_db)"
    using upd by (simp only: if_False)
  then have c4: "map res_status (reservations (snd ?R)) = [RES_FULFILLED, RES_PENDING]
       \<and> map fulfilled_at (reservations (snd ?R)) = [Some (hours 10), None]"
    unfolding rows by simp
  from f1 r1 c1 c2 c3 c4 show ?thesis by blast
qed

section \<open>The reservation queue on return\<close>

text \<open>
  C2 (amended). A successful return through \<^verbatim>\<open>/book-copies/{id}/return\<close> looks at one
  reservation only, the PENDING reservation of the copy's book with the smallest
  \<^verbatim>\<open>reserved_at\<close>. If there is none, or if that head has expired at the time of the
  check, no reservation changes: the head stays PENDING and no later reservation is
  considered. If the head has not expired it becomes FULFILLED with \<^verbatim>\<open>fulfilled_at\<close> the
  time of fulfilment, and every other reservation stays as it was.
\<close>

theorem return_fulfils_head_unless_expired:
  "book_copies_return_book cid user t_returned t_check t_fulfilled s = (Inr rec, s') \<Longrightarrow>
   find (\<lambda>c. copy_id c = cid) (book_copies s) = Some copy \<Longrightarrow>
   (if \<exists>r \<in> set (reservations s). res_book_id r = copy_book_id copy \<and> res_status r = RES_PENDING
    then \<exists>h \<in> set (reservations s).
           res_book_id h = copy_book_id copy \<and> res_status h = RES_PENDING
           \<and> (\<forall>x \<in> set (reservations s).
                 res_book_id x = copy_book_id copy \<and> res_status x = RES_PENDING
                 \<longrightarrow> reserved_at h \<le> reserved_at x)
           \<and> (if expires_at h < t_check
               then reservations s' = reservations s
               else reservations s'
                      = map (\<lambda>r. if res_id r = res_id h
                                  then r\<lparr>res_status := RES_FULFILLED,
                                         fulfilled_at := Some t_fulfilled\<rparr>
                                  else r)
                          (reservations s))
    else reservations s' = reservations s)"
proof -
  assume a: "book_copies_return_book cid user t_returned t_check t_fulfilled s = (Inr rec, s')"
    and c: "find (\<lambda>c. copy_id c = cid) (book_copies s) = Some copy"
  let ?book = "copy_book_id copy"
  from book_copies_return_book_Inr[OF a] c
  have ress: "reservations s' = fulfill_on_return ?book t_check t_fulfilled (reservations s)"
    by auto
  show ?thesis
  proof (cases "\<exists>r \<in> set (reservations s). res_book_id r = ?book \<and> res_status r = RES_PENDING")
    case False
    then have "first_pending_reservation ?book (reservations s) = None"
      using first_pending_reservation_None[of ?book "reservations s"] by blast
    then have "reservations s' = reservations s"
      unfolding ress fulfill_on_return_def by simp
    with False show ?thesis by (simp only: if_False)
  next
    case True
    then have "first_pending_reservation ?book (reservations s) \<noteq> None"
      using first_pending_reservation_None[of ?book "reservations s"] by blast
    then obtain h where h: "first_pending_reservation ?book (reservations s) = Some h"
      by blast
    note hp = first_pending_reservation_Some[OF h]
    have exp: "is_expired h t_check = (expires_at h < t_check)"
      using hp by (simp add: is_expired_def)
    have "if expires_at h < t_check
          then reservations s' = reservations s
          else reservations s'
                 = map (\<lambda>r. if res_id r = res_id h
                             then r\<lparr>res_status := RES_FULFILLED,
                                    fulfilled_at := Some t_fulfilled\<rparr>
                             else r)
                     (reservations s)"
      unfolding ress fulfill_on_return_def update_where_def by (simp add: h exp)
    with hp have "\<exists>h \<in> set (reservations s).
           res_book_id h = ?book \<and> res_status h = RES_PENDING
           \<and> (\<forall>x \<in> set (reservations s).
                 res_book_id x = ?book \<and> res_status x = RES_PENDING
                 \<longrightarrow> reserved_at h \<le> reserved_at x)
           \<and> (if expires_at h < t_check
               then reservations s' = reservations s
               else reservations s'
                      = map (\<lambda>r. if res_id r = res_id h
                                  then r\<lparr>res_status := RES_FULFILLED,
                                         fulfilled_at := Some t_fulfilled\<rparr>
                                  else r)
                          (reservations s))"
      by (intro bexI[of _ h]) blast+
    with True show ?thesis by (simp only: if_True)
  qed
qed

theorem return_fulfils_head_unless_expired_witness:
  "fst (book_copies_return_book 1 10 (hours 10) (hours 10) (hours 10) ex_queue_db)
     = Inr ((hd (borrow_records ex_queue_db))\<lparr>returned_at := Some (hours 10),
                                                br_status := RETURNED\<rparr>)
   \<and> find (\<lambda>c. copy_id c = 1) (book_copies ex_queue_db) = Some (hd (book_copies ex_queue_db))
   \<and> map res_status (reservations
         (snd (book_copies_return_book 1 10 (hours 10) (hours 10) (hours 10) ex_queue_db)))
       = [RES_FULFILLED, RES_PENDING]
   \<and> map fulfilled_at (reservations
         (snd (book_copies_return_book 1 10 (hours 10) (hours 10) (hours 10) ex_queue_db)))
       = [Some (hours 10), None]"
proof -
  let ?R = "book_copies_return_book 1 10 (hours 10) (hours 10) (hours 10) ex_queue_db"
  let ?rec = "(hd (borrow_records ex_queue_db))\<lparr>returned_at := Some (hours 10),
                                                br_status := RETURNED\<rparr>"
  let ?r1 = "\<lparr>res_id = 1, res_user_id = 11, res_book_id = 1, res_status = RES_PENDING,
              reserved_at = 0, expires_at = hours 48, fulfilled_at = None,
              res_created_at = 0\<rparr>"
  let ?r2 = "\<lparr>res_id = 2, res_user_id = 12, res_book_id = 1, res_status = RES_PENDING,
              reserved_at = hours 24, expires_at = hours 72, fulfilled_at = None,
              res_created_at = hours 24\<rparr>"
  have r1: "fst ?R = Inr ?rec" by code_simp
  then have r: "?R = (Inr ?rec, snd ?R)" by (intro prod_eqI) simp_all
  have c: "find (\<lambda>c. copy_id c = 1) (book_copies ex_queue_db) = Some (hd (book_copies ex_queue_db))"
    by (simp add: ex_queue_db_def)
  have rows: "reservations ex_queue_db = [?r1, ?r2]" by (simp add: ex_queue_db_def)
  have p: "\<exists>r \<in> set (reservations ex_queue_db).
             res_book_id r = copy_book_id (hd (book_copies ex_queue_db)) \<and> res_status r = RES_PENDING"
    by (simp add: ex_queue_db_def)
  let ?book = "copy_book_id (hd (book_copies ex_queue_db))"
  from return_fulfils_head_unless_expired[OF r c] p
  have "\<exists>h \<in> set (reservations ex_queue_db).
           res_book_id h = ?book \<and> res_status h = RES_PENDING
           \<and> (\<forall>x \<in> set (reservations ex_queue_db).
                 res_book_id x = ?book \<and> res_status x = RES_PENDING
                 \<longrightarrow> reserved_at h \<le> reserved_at x)
           \<and> (if expires_at h < hours 10
               then reservations (snd ?R) = reservations ex_queue_db
               else reservations (snd ?R)
                      = map (\<lambda>r. if res_id r = res_id h
                                  then r\<lparr>res_status := RES_FULFILLED,
                                         fulfilled_at := Some (hours 10)\<rparr>
                                  else r)
                          (reservations ex_queue_db))"
    by (simp only: if_True)
  then obtain h where h: "h \<in> set (reservations ex_queue_db)"
    and "res_book_id h = ?book" and "res_status h = RES_PENDING"
    and least: "\<forall>x \<in> set (reservations ex_queue_db).
        res_book_id x = ?book \<and> res_status x = RES_PENDING
        \<longrightarrow> reserved_at h \<le> reserved_at x"
    and upd: "if expires_at h < hours 10
     then reservations (snd ?R) = reservations ex_queue_db
     else reservations (snd ?R)
            = map (\<lambda>r. if res_id r = res_id h
                        then r\<lparr>res_status := RES_FULFILLED, fulfilled_at := Some (hours 10)\<rparr>
                        else r)
                (reservations ex_queue_db)"
    by (elim bexE conjE)
  have in1: "?r1 \<in> set (reservations ex_queue_db)" unfolding rows by simp
  have p1: "res_book_id ?r1 = ?book \<and> res_status ?r1 = RES_PENDING"
    by (simp add: ex_queue_db_def)
  from least in1 p1 have le: "reserved_at h \<le> reserved_at ?r1" by blast
  have lt: "reserved_at ?r1 < reserved_at ?r2" by (simp add: hours_def)
  from h have "h = ?r1 \<or> h = ?r2" unfolding rows by simp
  then have "h = ?r1"
  proof
    assume "h = ?r1" then show ?thesis .
  next
    assume "h = ?r2"
    with le lt show ?thesis by simp
  qed
  moreover have "\<not> expires_at ?r1 < hours 10" by (simp add: hours_def)
  ultimately have "reservations (snd ?R)
            = map (\<lambda>r. if res_id r = res_id ?r1
                        then r\<lparr>res_status := RES_FULFILLED, fulfilled_at := Some (hours 10)\<rparr>
                        else r)
                (reservations ex_queue_db)"
    using upd by (simp only: if_False)
  then have "map res_status (reservations (snd ?R)) = [RES_FULFILLED, RES_PENDING]
       \<and> map fulfilled_at (reservations (snd ?R)) = [Some (hours 10), None]"
    unfolding rows by simp
  with r1 c show ?thesis by blast
qed

text \<open>The claim as it was written fails. At 50 hours the first reservation of the
  example has expired and the second has not: the return marks neither, where the claim
  has the first EXPIRED and the second FULFILLED. The expired head stays at the head, so
  after a further borrow and return of the copy the second reservation still waits.\<close>

theorem return_with_expired_head_counterexample:
  "is_expired (hd (reservations ex_queue_db)) (hours 50)
   \<and> \<not> is_expired (hd (tl (reservations ex_queue_db))) (hours 50)
   \<and> fst (book_copies_return_book 1 10 (hours 50) (hours 50) (hours 50) ex_queue_db)
       = Inr ((hd (borrow_records ex_queue_db))\<lparr>returned_at := Some (hours 50),
                                                  br_status := RETURNED\<rparr>)
   \<and> map res_status (reservations
         (snd (book_copies_return_book 1 10 (hours 50) (hours 50) (hours 50) ex_queue_db)))
       = [RES_PENDING, RES_PENDING]
   \<and> map res_status (reservations
         (snd (book_copies_return_book 1 20 (hours 52) (hours 52) (hours 52)
           (snd (borrow_book 1 20 (days 14) (hours 51) (hours 51)
             (snd (book_copies_return_book 1 10 (hours 50) (hours 50) (hours 50)
                    ex_queue_db)))))))
       = [RES_PENDING, RES_PENDING]
   \<and> map br_status (borrow_records
         (snd (book_copies_return_book 1 20 (hours 52) (hours 52) (hours 52)
           (snd (borrow_book 1 20 (days 14) (hours 51) (hours 51)
             (snd (book_copies_return_book 1 10 (hours 50) (hours 50) (hours 50)
                    ex_queue_db)))))))
       = [RETURNED, RETURNED]"
  by code_simp

section \<open>Facts about the sweep\<close>

lemma release_twice:
  "(\<lambda>c. if copy_id c \<in> K then c\<lparr>copy_status := AVAILABLE\<rparr> else c)
     ((\<lambda>c. if copy_id c = k then c\<lparr>copy_status := AVAILABLE\<rparr> else c) c)
   = (if copy_id c \<in> insert k K then c\<lparr>copy_status := AVAILABLE\<rparr> else c)"
  by (cases "copy_id c = k"; cases "copy_id c \<in> K") simp_all

lemma cancel_twice:
  "(\<lambda>x. if br_id x \<in> K then x\<lparr>br_status := CANCELLED\<rparr> else x)
     ((\<lambda>x. if br_id x = k then x\<lparr>br_status := CANCELLED\<rparr> else x) x)
   = (if br_id x \<in> insert k K then x\<lparr>br_status := CANCELLED\<rparr> else x)"
  by (cases "br_id x = k"; cases "br_id x \<in> K") simp_all

lemma fold_cancel_pickup_copies:
  "book_copies (fold cancel_pickup rs s)
     = map (\<lambda>c. if copy_id c \<in> br_copy_id ` set rs then c\<lparr>copy_status := AVAILABLE\<rparr> else c)
         (book_copies s)"
proof (induction rs arbitrary: s)
  case Nil
  show ?case by (simp add: map_idI)
next
  case (Cons r rs)
  have "book_copies (fold cancel_pickup (r # rs) s)
          = map (\<lambda>c. if copy_id c \<in> br_copy_id ` set rs then c\<lparr>copy_status := AVAILABLE\<rparr> else c)
              (book_copies (cancel_pickup r s))"
    using Cons.IH[of "cancel_pickup r s"] by simp
  also have "book_copies (cancel_pickup r s)
          = map (\<lambda>c. if copy_id c = br_copy_id r then c\<lparr>copy_status := AVAILABLE\<rparr> else c)
              (book_copies s)"
    by (simp add: cancel_pickup_def set_copy_status_def update_where_def)
  finally show ?case
    unfolding map_map comp_def release_twice by simp
qed

lemma fold_cancel_pickup_records:
  "borrow_records (fold cancel_pickup rs s)
     = map (\<lambda>x. if br_id x \<in> br_id ` set rs then x\<lparr>br_status := CANCELLED\<rparr> else x)
         (borrow_records s)"
proof (induction rs arbitrary: s)
  case Nil
  show ?case by (simp add: map_idI)
next
  case (Cons r rs)
  have "borrow_records (fold cancel_pickup (r # rs) s)
          = map (\<lambda>x. if br_id x \<in> br_id ` set rs then x\<lparr>br_status := CANCELLED\<rparr> else x)
              (borrow_records (cancel_pickup r s))"
    using Cons.IH[of "cancel_pickup r s"] by simp
  also have "borrow_records (cancel_pickup r s)
          = map (\<lambda>x. if br_id x = br_id r then x\<lparr>br_status := CANCELLED\<rparr> else x)
              (borrow_records s)"
    by (simp add: cancel_pickup_def update_where_def)
  finally show ?case
    unfolding map_map comp_def cancel_twice by simp
qed

lemma fold_cancel_pickup_frame:
  "books (fold cancel_pickup rs s) = books s
   \<and> reservations (fold cancel_pickup rs s) = reservations s
   \<and> carts (fold cancel_pickup rs s) = carts s
   \<and> cart_items (fold cancel_pickup rs s) = cart_items s"
  by (induction rs arbitrary: s) (simp_all add: cancel_pickup_def)

lemma sweep_is_fold:
  "cancel_expired_pickups_in_session now s
     = fold cancel_pickup
         (filter (\<lambda>r. br_status r = PENDING \<and> br_created_at r \<le> now - hours 48)
            (borrow_records s)) s"
proof (cases "filter (\<lambda>r. br_status r = PENDING \<and> br_created_at r \<le> now - hours 48)
            (borrow_records s) = []")
  case True
  then show ?thesis unfolding cancel_expired_pickups_in_session_def Let_def by simp
next
  case False
  then show ?thesis unfolding cancel_expired_pickups_in_session_def Let_def by (simp only: if_False)
qed

lemma sweep_copies:
  "book_copies (cancel_expired_pickups_in_session now s)
     = map (\<lambda>c. if \<exists>r \<in> set (borrow_records s).
                       br_status r = PENDING \<and> br_created_at r \<le> now - hours 48
                       \<and> br_copy_id r = copy_id c
                 then c\<lparr>copy_status := AVAILABLE\<rparr> else c)
         (book_copies s)"
proof -
  let ?P = "\<lambda>r. br_status r = PENDING \<and> br_created_at r \<le> now - hours 48"
  have key: "(copy_id c \<in> br_copy_id ` set (filter ?P (borrow_records s)))
        = (\<exists>r \<in> set (borrow_records s). ?P r \<and> br_copy_id r = copy_id c)" for c
  proof
    assume "copy_id c \<in> br_copy_id ` set (filter ?P (borrow_records s))"
    then obtain y where "y \<in> set (filter ?P (borrow_records s))" "copy_id c = br_copy_id y"
      by (rule imageE)
    then have "y \<in> set (borrow_records s) \<and> ?P y \<and> br_copy_id y = copy_id c" by simp
    then show "\<exists>r \<in> set (borrow_records s). ?P r \<and> br_copy_id r = copy_id c" by blast
  next
    assume "\<exists>r \<in> set (borrow_records s). ?P r \<and> br_copy_id r = copy_id c"
    then obtain r where r: "r \<in> set (borrow_records s)" "?P r" "br_copy_id r = copy_id c"
      by blast
    then have "r \<in> set (filter ?P (borrow_records s))" by simp
    with r(3) show "copy_id c \<in> br_copy_id ` set (filter ?P (borrow_records s))"
      by (intro image_eqI[of _ _ r]) simp_all
  qed
  show ?thesis
    unfolding sweep_is_fold fold_cancel_pickup_copies
    by (intro map_cong[OF refl]) (simp only: key conj_assoc)
qed

lemma sweep_records:
  assumes "distinct (map br_id (borrow_records s))"
  shows "borrow_records (cancel_expired_pickups_in_session now s)
     = map (\<lambda>r. if br_status r = PENDING \<and> br_created_at r \<le> now - hours 48
                 then r\<lparr>br_status := CANCELLED\<rparr> else r)
         (borrow_records s)"
proof -
  let ?P = "\<lambda>r. br_status r = PENDING \<and> br_created_at r \<le> now - hours 48"
  have inj: "inj_on br_id (set (borrow_records s))"
    using assms by (simp add: distinct_map)
  have "\<And>x. x \<in> set (borrow_records s) \<Longrightarrow>
          (br_id x \<in> br_id ` set (filter ?P (borrow_records s))) = ?P x"
  proof -
    fix x assume x: "x \<in> set (borrow_records s)"
    show "(br_id x \<in> br_id ` set (filter ?P (borrow_records s))) = ?P x"
    proof
      assume "br_id x \<in> br_id ` set (filter ?P (borrow_records s))"
      then obtain y where y: "y \<in> set (borrow_records s)" "?P y" "br_id x = br_id y"
        unfolding image_iff set_filter mem_Collect_eq Bex_def by blast
      from inj_onD[OF inj y(3) x y(1)] have "x = y" .
      with y(2) show "?P x" by simp
    next
      assume "?P x"
      with x show "br_id x \<in> br_id ` set (filter ?P (borrow_records s))" by simp
    qed
  qed
  then show ?thesis
    unfolding sweep_is_fold fold_cancel_pickup_records
    by (intro map_cong[OF refl]) (simp only:)
qed

lemma sweep_frame:
  "books (cancel_expired_pickups_in_session now s) = books s
   \<and> reservations (cancel_expired_pickups_in_session now s) = reservations s
   \<and> carts (cancel_expired_pickups_in_session now s) = carts s
   \<and> cart_items (cancel_expired_pickups_in_session now s) = cart_items s"
  unfolding sweep_is_fold by (rule fold_cancel_pickup_frame)

section \<open>The sweep of expired pickups\<close>

text \<open>
  C7 (amended). A sweep cancels exactly the borrow records that are PENDING and whose
  \<^verbatim>\<open>created_at\<close> is at or before now minus 48 hours (a record that is exactly 48
  hours old is cancelled too): each becomes CANCELLED and every copy it refers to
  becomes AVAILABLE. Younger PENDING records, records in other statuses, the other
  copies and the other tables are untouched, and a run without a match returns the
  state as it was.
\<close>

theorem sweep_cancels_pending_of_48_hours:
  "distinct (map br_id (borrow_records s)) \<Longrightarrow>
   borrow_records (cancel_expired_pickups_in_session now s)
     = map (\<lambda>r. if br_status r = PENDING \<and> br_created_at r \<le> now - hours 48
                 then r\<lparr>br_status := CANCELLED\<rparr> else r)
         (borrow_records s)
   \<and> book_copies (cancel_expired_pickups_in_session now s)
     = map (\<lambda>c. if \<exists>r \<in> set (borrow_records s).
                       br_status r = PENDING \<and> br_created_at r \<le> now - hours 48
                       \<and> br_copy_id r = copy_id c
                 then c\<lparr>copy_status := AVAILABLE\<rparr> else c)
         (book_copies s)
   \<and> reservations (cancel_expired_pickups_in_session now s) = reservations s
   \<and> cart_items (cancel_expired_pickups_in_session now s) = cart_items s
   \<and> ((\<forall>r \<in> set (borrow_records s).
          \<not> (br_status r = PENDING \<and> br_created_at r \<le> now - hours 48))
        \<longrightarrow> cancel_expired_pickups_in_session now s = s)"
proof (intro conjI impI)
  assume d: "distinct (map br_id (borrow_records s))"
  show "borrow_records (cancel_expired_pickups_in_session now s)
     = map (\<lambda>r. if br_status r = PENDING \<and> br_created_at r \<le> now - hours 48
                 then r\<lparr>br_status := CANCELLED\<rparr> else r)
         (borrow_records s)"
    using d by (rule sweep_records)
  show "book_copies (cancel_expired_pickups_in_session now s)
     = map (\<lambda>c. if \<exists>r \<in> set (borrow_records s).
                       br_status r = PENDING \<and> br_created_at r \<le> now - hours 48
                       \<and> br_copy_id r = copy_id c
                 then c\<lparr>copy_status := AVAILABLE\<rparr> else c)
         (book_copies s)"
    by (rule sweep_copies)
  show "reservations (cancel_expired_pickups_in_session now s) = reservations s"
    using sweep_frame[of now s] by blast
  show "cart_items (cancel_expired_pickups_in_session now s) = cart_items s"
    using sweep_frame[of now s] by blast
next
  assume "\<forall>r \<in> set (borrow_records s).
          \<not> (br_status r = PENDING \<and> br_created_at r \<le> now - hours 48)"
  then have "filter (\<lambda>r. br_status r = PENDING \<and> br_created_at r \<le> now - hours 48)
               (borrow_records s) = []"
    unfolding filter_empty_conv by blast
  then show "cancel_expired_pickups_in_session now s = s"
    unfolding cancel_expired_pickups_in_session_def Let_def by simp
qed

theorem sweep_cancels_pending_of_48_hours_witness:
  "distinct (map br_id (borrow_records ex_sweep_db))
   \<and> map br_status (borrow_records (cancel_expired_pickups_in_session (hours 50) ex_sweep_db))
       = [CANCELLED, PENDING]
   \<and> map copy_status (book_copies (cancel_expired_pickups_in_session (hours 50) ex_sweep_db))
       = [AVAILABLE, BORROWED]
   \<and> cancel_expired_pickups_in_session (hours 47) ex_sweep_db = ex_sweep_db"
proof -
  have d: "distinct (map br_id (borrow_records ex_sweep_db))"
    by (simp add: ex_sweep_db_def)
  note T = sweep_cancels_pending_of_48_hours[OF d, of "hours 50"]
  have "map br_status (borrow_records (cancel_expired_pickups_in_session (hours 50) ex_sweep_db))
          = map br_status
              (map (\<lambda>r. if br_status r = PENDING \<and> br_created_at r \<le> hours 50 - hours 48
                          then r\<lparr>br_status := CANCELLED\<rparr> else r)
                 (borrow_records ex_sweep_db))"
    by (simp only: T[THEN conjunct1])
  also have "\<dots> = [CANCELLED, PENDING]"
    by (simp add: ex_sweep_db_def hours_def)
  finally have a: "map br_status
      (borrow_records (cancel_expired_pickups_in_session (hours 50) ex_sweep_db))
        = [CANCELLED, PENDING]" .
  have "map copy_status (book_copies (cancel_expired_pickups_in_session (hours 50) ex_sweep_db))
          = map copy_status
              (map (\<lambda>c. if \<exists>r \<in> set (borrow_records ex_sweep_db).
                               br_status r = PENDING \<and> br_created_at r \<le> hours 50 - hours 48
                               \<and> br_copy_id r = copy_id c
                          then c\<lparr>copy_status := AVAILABLE\<rparr> else c)
                 (book_copies ex_sweep_db))"
    by (simp only: T[THEN conjunct2, THEN conjunct1])
  also have "\<dots> = [AVAILABLE, BORROWED]"
    by (simp add: ex_sweep_db_def hours_def)
  finally have b: "map copy_status
      (book_copies (cancel_expired_pickups_in_session (hours 50) ex_sweep_db))
        = [AVAILABLE, BORROWED]" .
  have n: "\<forall>r \<in> set (borrow_records ex_sweep_db).
          \<not> (br_status r = PENDING \<and> br_created_at r \<le> hours 47 - hours 48)"
    by (simp add: ex_sweep_db_def hours_def)
  have c: "cancel_expired_pickups_in_session (hours 47) ex_sweep_db = ex_sweep_db"
    using sweep_cancels_pending_of_48_hours[OF d, of "hours 47"] n by blast
  from d a b c show ?thesis by blast
qed

text \<open>The claim as it was written fails for a record that is exactly 48 hours old: it
  is not older than now minus 48 hours, and the sweep cancels it.\<close>

theorem sweep_boundary_counterexample:
  "br_status (hd (borrow_records ex_sweep_db)) = PENDING
   \<and> \<not> br_created_at (hd (borrow_records ex_sweep_db)) < hours 48 - hours 48
   \<and> map br_status (borrow_records (cancel_expired_pickups_in_session (hours 48) ex_sweep_db))
       = [CANCELLED, PENDING]
   \<and> map copy_status (book_copies (cancel_expired_pickups_in_session (hours 48) ex_sweep_db))
       = [AVAILABLE, BORROWED]"
  by code_simp

section \<open>Return at the desk and release of the copy\<close>

text \<open>
  C5 (amended). For a borrow record that exists, \<^verbatim>\<open>/borrowing/{id}/return\<close> fails with
  the already-returned error exactly when the record's status is RETURNED, and then
  changes nothing. In every other status (PENDING and ACTIVE, and OVERDUE and CANCELLED
  as well) it succeeds, sets the record to RETURNED with \<^verbatim>\<open>returned_at\<close> the time of
  the call, and leaves the record's copy AVAILABLE.
\<close>

theorem borrowing_return_book_by_status:
  "find (\<lambda>x. br_id x = rid) (borrow_records s) = Some r \<Longrightarrow>
   ((fst (borrowing_return_book rid t s) = Inl AlreadyReturned) = (br_status r = RETURNED))
   \<and> (br_status r = RETURNED \<longrightarrow> snd (borrowing_return_book rid t s) = s)
   \<and> (br_status r \<noteq> RETURNED \<longrightarrow>
        fst (borrowing_return_book rid t s) = Inr ()
        \<and> find (\<lambda>x. br_id x = rid) (borrow_records (snd (borrowing_return_book rid t s)))
            = Some (r\<lparr>br_status := RETURNED, returned_at := Some t\<rparr>)
        \<and> (\<forall>c \<in> set (book_copies (snd (borrowing_return_book rid t s))).
              copy_id c = br_copy_id r \<longrightarrow> copy_status c = AVAILABLE))"
proof -
  assume f: "find (\<lambda>x. br_id x = rid) (borrow_records s) = Some r"
  note R = borrowing_return_book_found[OF f, of t]
  show ?thesis
  proof (cases "br_status r = RETURNED")
    case True
    then show ?thesis by (simp add: R)
  next
    case False
    have a: "fst (borrowing_return_book rid t s) = Inr ()" using False by (simp add: R)
    have b: "find (\<lambda>x. br_id x = rid) (borrow_records (snd (borrowing_return_book rid t s)))
            = Some (r\<lparr>br_status := RETURNED, returned_at := Some t\<rparr>)"
      using False f by (simp add: R find_update_where_key)
    have c: "\<forall>c \<in> set (book_copies (snd (borrowing_return_book rid t s))).
              copy_id c = br_copy_id r \<longrightarrow> copy_status c = AVAILABLE"
      using False set_copy_status_hit by (simp add: R)
    from False a b c show ?thesis by simp
  qed
qed

theorem borrowing_return_book_by_status_witness:
  "find (\<lambda>x. br_id x = 1) (borrow_records ex_queue_db) = Some (hd (borrow_records ex_queue_db))
   \<and> fst (borrowing_return_book 1 (hours 10) ex_queue_db) = Inr ()
   \<and> map br_status (borrow_records (snd (borrowing_return_book 1 (hours 10) ex_queue_db)))
       = [RETURNED]
   \<and> fst (borrowing_return_book 1 (hours 11)
            (snd (borrowing_return_book 1 (hours 10) ex_queue_db))) = Inl AlreadyReturned"
proof -
  have f: "find (\<lambda>x. br_id x = 1) (borrow_records ex_queue_db)
             = Some (hd (borrow_records ex_queue_db))"
    by (simp add: ex_queue_db_def)
  have st: "br_status (hd (borrow_records ex_queue_db)) \<noteq> RETURNED"
    by (simp add: ex_queue_db_def)
  have a: "fst (borrowing_return_book 1 (hours 10) ex_queue_db) = Inr ()"
    using borrowing_return_book_by_status[OF f, of "hours 10"] st by blast
  have b: "map br_status (borrow_records (snd (borrowing_return_book 1 (hours 10) ex_queue_db)))
       = [RETURNED]"
    by code_simp
  have c: "fst (borrowing_return_book 1 (hours 11)
            (snd (borrowing_return_book 1 (hours 10) ex_queue_db))) = Inl AlreadyReturned"
    by code_simp
  from f a b c show ?thesis by blast
qed

text \<open>The claim as it was written fails: a record that the sweep has cancelled is
  neither PENDING nor ACTIVE and its return succeeds; and the return of the active loan
  of the example leaves both waiting reservations as they were, though the first of
  them has not expired.\<close>

theorem borrowing_return_book_counterexample:
  "map br_status (borrow_records (cancel_expired_pickups_in_session (hours 50) ex_sweep_db))
     = [CANCELLED, PENDING]
   \<and> fst (borrowing_return_book 1 (hours 60)
            (cancel_expired_pickups_in_session (hours 50) ex_sweep_db)) = Inr ()
   \<and> map br_status (borrow_records (snd (borrowing_return_book 1 (hours 60)
            (cancel_expired_pickups_in_session (hours 50) ex_sweep_db))))
     = [RETURNED, PENDING]
   \<and> fst (borrowing_return_book 1 (hours 10) ex_queue_db) = Inr ()
   \<and> map res_status (reservations ex_queue_db) = [RES_PENDING, RES_PENDING]
   \<and> \<not> is_expired (hd (reservations ex_queue_db)) (hours 10)
   \<and> reservations (snd (borrowing_return_book 1 (hours 10) ex_queue_db))
       = reservations ex_queue_db"
  by code_simp

text \<open>
  C8 (amended). Release writes AVAILABLE without looking at the copy's status. After a
  successful return at the desk the record's copy is AVAILABLE whatever it was before,
  LOST included, and if it was AVAILABLE already the copies are unchanged and there is no
  error. The sweep does the same for the copy of every record it cancels.
\<close>

theorem release_sets_available_unconditionally:
  "(find (\<lambda>x. br_id x = rid) (borrow_records s) = Some r \<and> br_status r \<noteq> RETURNED
    \<longrightarrow> fst (borrowing_return_book rid t s) = Inr ()
        \<and> (\<forall>c \<in> set (book_copies (snd (borrowing_return_book rid t s))).
              copy_id c = br_copy_id r \<longrightarrow> copy_status c = AVAILABLE)
        \<and> ((\<forall>c \<in> set (book_copies s). copy_id c = br_copy_id r \<longrightarrow> copy_status c = AVAILABLE)
            \<longrightarrow> book_copies (snd (borrowing_return_book rid t s)) = book_copies s))
   \<and> (r' \<in> set (borrow_records s) \<and> br_status r' = PENDING
        \<and> br_created_at r' \<le> now - hours 48
    \<longrightarrow> (\<forall>c \<in> set (book_copies (cancel_expired_pickups_in_session now s)).
              copy_id c = br_copy_id r' \<longrightarrow> copy_status c = AVAILABLE))
   \<and> ((\<forall>x \<in> set (borrow_records s).
          br_status x = PENDING \<and> br_created_at x \<le> now - hours 48
          \<longrightarrow> (\<forall>c \<in> set (book_copies s). copy_id c = br_copy_id x \<longrightarrow> copy_status c = AVAILABLE))
    \<longrightarrow> book_copies (cancel_expired_pickups_in_session now s) = book_copies s)"
proof (intro conjI impI)
  assume h: "find (\<lambda>x. br_id x = rid) (borrow_records s) = Some r \<and> br_status r \<noteq> RETURNED"
  then have f: "find (\<lambda>x. br_id x = rid) (borrow_records s) = Some r"
    and st: "br_status r \<noteq> RETURNED" by simp_all
  note R = borrowing_return_book_found[OF f, of t]
  show "fst (borrowing_return_book rid t s) = Inr ()" using st by (simp add: R)
  have cps: "book_copies (snd (borrowing_return_book rid t s))
               = set_copy_status (br_copy_id r) AVAILABLE (book_copies s)"
    using st by (simp add: R)
  show "\<forall>c \<in> set (book_copies (snd (borrowing_return_book rid t s))).
              copy_id c = br_copy_id r \<longrightarrow> copy_status c = AVAILABLE"
    unfolding cps using set_copy_status_hit by blast
  assume "\<forall>c \<in> set (book_copies s). copy_id c = br_copy_id r \<longrightarrow> copy_status c = AVAILABLE"
  then show "book_copies (snd (borrowing_return_book rid t s)) = book_copies s"
    unfolding cps by (rule set_copy_status_noop)
next
  assume h: "r' \<in> set (borrow_records s) \<and> br_status r' = PENDING
        \<and> br_created_at r' \<le> now - hours 48"
  show "\<forall>c \<in> set (book_copies (cancel_expired_pickups_in_session now s)).
              copy_id c = br_copy_id r' \<longrightarrow> copy_status c = AVAILABLE"
  proof (intro ballI impI)
    fix c
    assume c: "c \<in> set (book_copies (cancel_expired_pickups_in_session now s))"
      and i: "copy_id c = br_copy_id r'"
    let ?hit = "\<lambda>c. \<exists>r \<in> set (borrow_records s).
                       br_status r = PENDING \<and> br_created_at r \<le> now - hours 48
                       \<and> br_copy_id r = copy_id c"
    from c obtain a where a: "c = (if ?hit a then a\<lparr>copy_status := AVAILABLE\<rparr> else a)"
      unfolding sweep_copies set_map by blast
    have "copy_id a = copy_id c" by (cases "?hit a") (simp_all add: a)
    with i h have "?hit a" by auto
    with a show "copy_status c = AVAILABLE" by simp
  qed
next
  assume h: "\<forall>x \<in> set (borrow_records s).
          br_status x = PENDING \<and> br_created_at x \<le> now - hours 48
          \<longrightarrow> (\<forall>c \<in> set (book_copies s). copy_id c = br_copy_id x \<longrightarrow> copy_status c = AVAILABLE)"
  have "\<And>c. c \<in> set (book_copies s) \<Longrightarrow>
          (if \<exists>r \<in> set (borrow_records s).
                       br_status r = PENDING \<and> br_created_at r \<le> now - hours 48
                       \<and> br_copy_id r = copy_id c
           then c\<lparr>copy_status := AVAILABLE\<rparr> else c) = c"
  proof -
    fix c assume c: "c \<in> set (book_copies s)"
    show "(if \<exists>r \<in> set (borrow_records s).
                       br_status r = PENDING \<and> br_created_at r \<le> now - hours 48
                       \<and> br_copy_id r = copy_id c
           then c\<lparr>copy_status := AVAILABLE\<rparr> else c) = c"
    proof (cases "\<exists>r \<in> set (borrow_records s).
                       br_status r = PENDING \<and> br_created_at r \<le> now - hours 48
                       \<and> br_copy_id r = copy_id c")
      case True
      with h c have "copy_status c = AVAILABLE" by metis
      then have "c\<lparr>copy_status := AVAILABLE\<rparr> = c" by simp
      with True show ?thesis by (simp only: if_True)
    next
      case False
      then show ?thesis by (simp only: if_False)
    qed
  qed
  then show "book_copies (cancel_expired_pickups_in_session now s) = book_copies s"
    unfolding sweep_copies by (simp add: map_idI)
qed

theorem release_sets_available_unconditionally_witness:
  "find (\<lambda>x. br_id x = 1) (borrow_records ex_lost_db) = Some (hd (borrow_records ex_lost_db))
   \<and> br_status (hd (borrow_records ex_lost_db)) \<noteq> RETURNED
   \<and> fst (borrowing_return_book 1 (hours 10) ex_lost_db) = Inr ()
   \<and> map copy_status (book_copies (snd (borrowing_return_book 1 (hours 10) ex_lost_db)))
       = [AVAILABLE]"
proof -
  have f: "find (\<lambda>x. br_id x = 1) (borrow_records ex_lost_db)
             = Some (hd (borrow_records ex_lost_db))
           \<and> br_status (hd (borrow_records ex_lost_db)) \<noteq> RETURNED"
    by code_simp
  have a: "fst (borrowing_return_book 1 (hours 10) ex_lost_db) = Inr ()"
    using release_sets_available_unconditionally
            [of 1 ex_lost_db "hd (borrow_records ex_lost_db)" "hours 10"] f
    by blast
  have b: "map copy_status (book_copies (snd (borrowing_return_book 1 (hours 10) ex_lost_db)))
       = [AVAILABLE]"
    by code_simp
  from f a b show ?thesis by blast
qed

text \<open>The claim as it was written fails: a copy that is LOST while its loan is open is
  AVAILABLE after the return at the desk, and after the sweep that cancels its pending
  pickup.\<close>

theorem release_of_lost_copy_counterexample:
  "map copy_status (book_copies ex_lost_db) = [LOST]
   \<and> fst (borrowing_return_book 1 (hours 10) ex_lost_db) = Inr ()
   \<and> map copy_status (book_copies (snd (borrowing_return_book 1 (hours 10) ex_lost_db)))
       = [AVAILABLE]
   \<and> map copy_status (book_copies
         (snd (update_book_copy 1 \<lparr>upd_status = Some LOST, upd_barcode = None\<rparr> ex_sweep_db)))
       = [LOST, BORROWED]
   \<and> map copy_status (book_copies (cancel_expired_pickups_in_session (hours 50)
         (snd (update_book_copy 1 \<lparr>upd_status = Some LOST, upd_barcode = None\<rparr> ex_sweep_db))))
       = [AVAILABLE, BORROWED]"
  by code_simp

section \<open>Facts about checkout\<close>

lemma checkout_items_created:
  "checkout_items af s0 user due stamps items (cur, recs, failed) = (cur', recs', failed') \<Longrightarrow>
   \<exists>new. recs' = recs @ new \<and> borrow_records cur' = borrow_records cur @ new
         \<and> (\<forall>r \<in> set new. br_status r = PENDING \<and> due_date r = due \<and> br_user_id r = user)"
proof (induction items arbitrary: cur recs failed)
  case Nil
  then show ?case by simp
next
  case (Cons item rest)
  show ?case
  proof (cases "find (\<lambda>c. copy_book_id c = item_book_id item \<and> copy_status c = AVAILABLE)
                  (book_copies (if af then cur else s0))")
    case None
    with Cons.prems have
      "checkout_items af s0 user due stamps rest
         (cur, recs,
          failed @
            [\<lparr>fb_book_id = item_book_id item,
              fb_book_title =
                (case find (\<lambda>b. book_id b = item_book_id item) (books cur) of
                   Some book \<Rightarrow> title book
                 | None \<Rightarrow> ''Unknown''),
              fb_reason = ''No available copies''\<rparr>]) = (cur', recs', failed')"
      by simp
    from Cons.IH[OF this] show ?thesis .
  next
    case (Some copy)
    define br where "br =
       \<lparr>br_id = fresh_id (map br_id (borrow_records cur)),
        br_copy_id = copy_id copy, br_user_id = user,
        borrowed_at = fst (stamps (length recs)),
        due_date = due, returned_at = None, br_status = PENDING,
        br_created_at = snd (stamps (length recs))\<rparr>"
    define cur2 where "cur2 =
       cur\<lparr>book_copies := set_copy_status (copy_id copy) BORROWED (book_copies cur),
           borrow_records := borrow_records cur @ [br]\<rparr>"
    from Cons.prems Some have
      "checkout_items af s0 user due stamps rest (cur2, recs @ [br], failed) = (cur', recs', failed')"
      by (simp add: Let_def br_def cur2_def)
    from Cons.IH[OF this] obtain new where new:
      "recs' = (recs @ [br]) @ new" "borrow_records cur' = borrow_records cur2 @ new"
      "\<forall>r \<in> set new. br_status r = PENDING \<and> due_date r = due \<and> br_user_id r = user"
      by blast
    have b: "br_status br = PENDING \<and> due_date br = due \<and> br_user_id br = user"
      by (simp add: br_def)
    have "recs' = recs @ (br # new)" using new(1) by simp
    moreover have "borrow_records cur' = borrow_records cur @ (br # new)"
      using new(2) by (simp add: cur2_def)
    moreover have "\<forall>r \<in> set (br # new).
        br_status r = PENDING \<and> due_date r = due \<and> br_user_id r = user"
      using new(3) b by simp
    ultimately show ?thesis by blast
  qed
qed

lemma checkout_cart_Inr:
  assumes "checkout_cart af user requested_due now stamps s = (Inr rs, s')"
  shows "\<exists>cart cur.
           find (\<lambda>c. cart_user_id c = user) (carts s) = Some cart
           \<and> checkout_items af s user
                 (case requested_due of Some d \<Rightarrow> d | None \<Rightarrow> now + days 14) stamps
                 (filter (\<lambda>i. item_cart_id i = cart_id cart) (cart_items s)) (s, [], [])
               = (cur, rs, [])
           \<and> s' = cur\<lparr>cart_items :=
                         filter (\<lambda>i. item_cart_id i \<noteq> cart_id cart) (cart_items cur)\<rparr>"
proof -
  from assms obtain cart where c: "find (\<lambda>c. cart_user_id c = user) (carts s) = Some cart"
    by (cases "find (\<lambda>c. cart_user_id c = user) (carts s)") (simp_all add: checkout_cart_def)
  let ?items = "filter (\<lambda>i. item_cart_id i = cart_id cart) (cart_items s)"
  let ?due = "case requested_due of Some d \<Rightarrow> d | None \<Rightarrow> now + days 14"
  obtain cur recs failed where
    l: "checkout_items af s user ?due stamps ?items (s, [], []) = (cur, recs, failed)"
    by (cases "checkout_items af s user ?due stamps ?items (s, [], [])") blast
  from assms c l have ne: "?items \<noteq> []"
    by (auto simp add: checkout_cart_def Let_def)
  from assms c l ne have f: "failed = []"
    by (cases "failed = []") (simp_all add: checkout_cart_def Let_def)
  from assms c l ne f have "rs = recs"
    and "s' = cur\<lparr>cart_items := filter (\<lambda>i. item_cart_id i \<noteq> cart_id cart) (cart_items cur)\<rparr>"
    by (simp_all add: checkout_cart_def Let_def)
  with c l f show ?thesis by blast
qed

lemma borrow_book_Inr:
  assumes "borrow_book cid user due t_borrowed t_created s = (Inr r, s')"
  shows "r = \<lparr>br_id = fresh_id (map br_id (borrow_records s)),
              br_copy_id = cid, br_user_id = user, borrowed_at = t_borrowed,
              due_date = due, returned_at = None, br_status = ACTIVE,
              br_created_at = t_created\<rparr>
         \<and> s' = s\<lparr>book_copies := set_copy_status cid BORROWED (book_copies s),
                  borrow_records := borrow_records s @ [r]\<rparr>
         \<and> (\<exists>copy. find (\<lambda>c. copy_id c = cid) (book_copies s) = Some copy
                    \<and> copy_status copy = AVAILABLE)"
proof -
  from assms obtain copy where c: "find (\<lambda>c. copy_id c = cid) (book_copies s) = Some copy"
    by (cases "find (\<lambda>c. copy_id c = cid) (book_copies s)") (simp_all add: borrow_book_def)
  from assms c have a: "copy_status copy = AVAILABLE"
    by (cases "copy_status copy = AVAILABLE") (simp_all add: borrow_book_def)
  from assms c a show ?thesis
    by (auto simp add: borrow_book_def Let_def)
qed

section \<open>Loans as they are created\<close>

text \<open>
  C9 (amended). A loan created by the walk-in borrow is ACTIVE and one created by cart
  checkout is PENDING. Its due date is the one the caller sent, which no handler
  compares with the clock; only when checkout is called without a due date is the due
  date 14 days after the handler's reading of the clock, and so after it.
\<close>

theorem created_loans_status_and_due_date:
  "(borrow_book cid user due t_borrowed t_created s = (Inr r, s')
    \<longrightarrow> br_status r = ACTIVE \<and> due_date r = due \<and> br_created_at r = t_created
        \<and> borrow_records s' = borrow_records s @ [r])
   \<and> (checkout_cart af user requested_due now stamps s = (Inr rs, s'')
    \<longrightarrow> borrow_records s'' = borrow_records s @ rs
        \<and> (\<forall>x \<in> set rs. br_status x = PENDING
              \<and> due_date x = (case requested_due of Some d \<Rightarrow> d | None \<Rightarrow> now + days 14))
        \<and> (requested_due = None \<longrightarrow> (\<forall>x \<in> set rs. now < due_date x)))"
proof (intro conjI impI)
  assume "borrow_book cid user due t_borrowed t_created s = (Inr r, s')"
  from borrow_book_Inr[OF this] have
    r: "r = \<lparr>br_id = fresh_id (map br_id (borrow_records s)),
              br_copy_id = cid, br_user_id = user, borrowed_at = t_borrowed,
              due_date = due, returned_at = None, br_status = ACTIVE,
              br_created_at = t_created\<rparr>"
    and s': "s' = s\<lparr>book_copies := set_copy_status cid BORROWED (book_copies s),
                  borrow_records := borrow_records s @ [r]\<rparr>"
    by blast+
  show "br_status r = ACTIVE" by (simp add: r)
  show "due_date r = due" by (simp add: r)
  show "br_created_at r = t_created" by (simp add: r)
  show "borrow_records s' = borrow_records s @ [r]" by (simp add: s')
next
  assume a: "checkout_cart af user requested_due now stamps s = (Inr rs, s'')"
  let ?due = "case requested_due of Some d \<Rightarrow> d | None \<Rightarrow> now + days 14"
  from checkout_cart_Inr[OF a] obtain cart cur where
    "find (\<lambda>c. cart_user_id c = user) (carts s) = Some cart" and
    l: "checkout_items af s user ?due stamps
          (filter (\<lambda>i. item_cart_id i = cart_id cart) (cart_items s)) (s, [], []) = (cur, rs, [])"
    and s'': "s'' = cur\<lparr>cart_items :=
                         filter (\<lambda>i. item_cart_id i \<noteq> cart_id cart) (cart_items cur)\<rparr>"
    by (elim exE conjE)
  from checkout_items_created[OF l] have
    n: "borrow_records cur = borrow_records s @ rs"
    and p: "\<forall>x \<in> set rs. br_status x = PENDING \<and> due_date x = ?due \<and> br_user_id x = user"
    by simp_all
  show "borrow_records s'' = borrow_records s @ rs" by (simp add: s'' n)
  show "\<forall>x \<in> set rs. br_status x = PENDING \<and> due_date x = ?due" using p by blast
  {
    assume "requested_due = None"
    with p show "\<forall>x \<in> set rs. now < due_date x" by (simp add: days_def)
  }
qed

theorem created_loans_status_and_due_date_witness:
  "map br_status (borrow_records (snd (borrow_book 1 10 (days 14) 0 0 ex_cart_db))) = [ACTIVE]
   \<and> map due_date (borrow_records (snd (borrow_book 1 10 (days 14) 0 0 ex_cart_db))) = [days 14]
   \<and> map br_status
        (borrow_records (snd (checkout_cart True 10 None (hours 1) (\<lambda>k. (hours 1, hours 1))
                                ex_cart_db)))
       = [PENDING, PENDING]
   \<and> map due_date
        (borrow_records (snd (checkout_cart True 10 None (hours 1) (\<lambda>k. (hours 1, hours 1))
                                ex_cart_db)))
       = [hours 1 + days 14, hours 1 + days 14]"
proof -
  let ?B = "borrow_book 1 10 (days 14) 0 0 ex_cart_db"
  let ?C = "checkout_cart True 10 None (hours 1) (\<lambda>k. (hours 1, hours 1)) ex_cart_db"
  let ?r = "\<lparr>br_id = 1, br_copy_id = 1, br_user_id = 10, borrowed_at = 0,
             due_date = days 14, returned_at = None, br_status = ACTIVE,
             br_created_at = 0\<rparr>"
  have "fst ?B = Inr ?r" by code_simp
  then have b: "?B = (Inr ?r, snd ?B)" by (intro prod_eqI) simp_all
  have b2: "borrow_records (snd ?B) = borrow_records ex_cart_db @ [?r]"
    using created_loans_status_and_due_date
            [of 1 10 "days 14" 0 0 ex_cart_db ?r "snd ?B", THEN conjunct1, THEN mp, OF b]
    by blast
  have e: "borrow_records ex_cart_db = []" by (simp add: ex_cart_db_def)
  have b3: "map br_status (borrow_records (snd ?B)) = [ACTIVE]
            \<and> map due_date (borrow_records (snd ?B)) = [days 14]"
    unfolding b2 e by simp
  let ?rs = "[\<lparr>br_id = 1, br_copy_id = 1, br_user_id = 10, borrowed_at = hours 1,
               due_date = hours 1 + days 14, returned_at = None, br_status = PENDING,
               br_created_at = hours 1\<rparr>,
              \<lparr>br_id = 2, br_copy_id = 2, br_user_id = 10, borrowed_at = hours 1,
               due_date = hours 1 + days 14, returned_at = None, br_status = PENDING,
               br_created_at = hours 1\<rparr>]"
  have "fst ?C = Inr ?rs" by code_simp
  then have c: "?C = (Inr ?rs, snd ?C)" by (intro prod_eqI) simp_all
  have c2: "borrow_records (snd ?C) = borrow_records ex_cart_db @ ?rs"
    using created_loans_status_and_due_date
            [of _ 10 _ _ _ ex_cart_db _ _ True None "hours 1" "\<lambda>k. (hours 1, hours 1)" ?rs "snd ?C",
             THEN conjunct2, THEN mp, OF c]
    by blast
  have c3: "map br_status (borrow_records (snd ?C)) = [PENDING, PENDING]
            \<and> map due_date (borrow_records (snd ?C)) = [hours 1 + days 14, hours 1 + days 14]"
    unfolding c2 e by simp
  from b3 c3 show ?thesis by blast
qed

text \<open>The claim as it was written fails: the walk-in borrow and the checkout accept a
  due date that lies before the creation of the loan.\<close>

theorem due_date_in_the_past_counterexample:
  "map due_date (borrow_records (snd (borrow_book 1 10 0 (hours 1) (hours 1) ex_cart_db))) = [0]
   \<and> map br_created_at (borrow_records (snd (borrow_book 1 10 0 (hours 1) (hours 1) ex_cart_db)))
       = [hours 1]
   \<and> map br_status (borrow_records (snd (borrow_book 1 10 0 (hours 1) (hours 1) ex_cart_db)))
       = [ACTIVE]
   \<and> (0::int) < hours 1
   \<and> map due_date
        (borrow_records (snd (checkout_cart True 10 (Some 0) (hours 1) (\<lambda>k. (hours 1, hours 1))
                                ex_cart_db)))
       = [0, 0]
   \<and> map br_created_at
        (borrow_records (snd (checkout_cart True 10 (Some 0) (hours 1) (\<lambda>k. (hours 1, hours 1))
                                ex_cart_db)))
       = [hours 1, hours 1]"
  by code_simp

section \<open>Checkout is all or nothing\<close>

lemma no_available_copy_after_borrow:
  assumes "filter (\<lambda>c. copy_book_id c = b \<and> copy_status c = AVAILABLE) rows = []"
  shows "filter (\<lambda>c. copy_book_id c = b \<and> copy_status c = AVAILABLE)
           (set_copy_status cid BORROWED rows) = []"
proof -
  have "\<not> (copy_book_id c = b \<and> copy_status c = AVAILABLE)"
    if c: "c \<in> set (set_copy_status cid BORROWED rows)" for c
  proof -
    from c obtain a where a: "a \<in> set rows"
      "c = (if copy_id a = cid then a\<lparr>copy_status := BORROWED\<rparr> else a)"
      unfolding set_copy_status_def using update_where_mem by fast
    from assms a(1) have n: "\<not> (copy_book_id a = b \<and> copy_status a = AVAILABLE)"
      unfolding filter_empty_conv by blast
    show ?thesis
    proof (cases "copy_id a = cid")
      case True with a(2) show ?thesis by simp
    next
      case False with a(2) n show ?thesis by simp
    qed
  qed
  then show ?thesis unfolding filter_empty_conv by blast
qed

lemma checkout_items_failed:
  assumes "checkout_items af s0 user due stamps items (cur, recs, failed) = (cur', recs', failed')"
    and "\<forall>b. filter (\<lambda>c. copy_book_id c = b \<and> copy_status c = AVAILABLE) (book_copies s0) = []
             \<longrightarrow> filter (\<lambda>c. copy_book_id c = b \<and> copy_status c = AVAILABLE) (book_copies cur) = []"
  shows "set failed \<subseteq> set failed'
     \<and> (\<forall>f \<in> set failed'. f \<in> set failed
            \<or> (fb_reason f = ''No available copies''
                \<and> (\<exists>i \<in> set items. fb_book_id f = item_book_id i)))
     \<and> (\<forall>i \<in> set items.
            filter (\<lambda>c. copy_book_id c = item_book_id i \<and> copy_status c = AVAILABLE)
              (book_copies s0) = []
            \<longrightarrow> (\<exists>f \<in> set failed'. fb_book_id f = item_book_id i
                                      \<and> fb_reason f = ''No available copies''))"
  using assms
proof (induction items arbitrary: cur recs failed)
  case Nil
  then show ?case by simp
next
  case (Cons item rest)
  let ?Q = "\<lambda>b c. copy_book_id c = b \<and> copy_status c = AVAILABLE"
  show ?case
  proof (cases "find (?Q (item_book_id item)) (book_copies (if af then cur else s0))")
    case None
    define fb where "fb =
       \<lparr>fb_book_id = item_book_id item,
        fb_book_title =
          (case find (\<lambda>b. book_id b = item_book_id item) (books cur) of
             Some book \<Rightarrow> title book
           | None \<Rightarrow> ''Unknown''),
        fb_reason = ''No available copies''\<rparr>"
    from Cons.prems(1) None have
      run: "checkout_items af s0 user due stamps rest (cur, recs, failed @ [fb])
              = (cur', recs', failed')"
      by (simp add: fb_def)
    note IH = Cons.IH[OF run Cons.prems(2)]
    have fbf: "fb_book_id fb = item_book_id item \<and> fb_reason fb = ''No available copies''"
      by (simp add: fb_def)
    from IH have sub: "set (failed @ [fb]) \<subseteq> set failed'" by blast
    then have fbin: "fb \<in> set failed'" by simp
    have 1: "set failed \<subseteq> set failed'" using sub by simp
    have 2: "\<forall>f \<in> set failed'. f \<in> set failed
            \<or> (fb_reason f = ''No available copies''
                \<and> (\<exists>i \<in> set (item # rest). fb_book_id f = item_book_id i))"
    proof
      fix f assume "f \<in> set failed'"
      with IH have "f \<in> set (failed @ [fb])
            \<or> (fb_reason f = ''No available copies''
                \<and> (\<exists>i \<in> set rest. fb_book_id f = item_book_id i))" by blast
      with fbf show "f \<in> set failed
            \<or> (fb_reason f = ''No available copies''
                \<and> (\<exists>i \<in> set (item # rest). fb_book_id f = item_book_id i))"
        by auto
    qed
    have 3: "\<forall>i \<in> set (item # rest).
            filter (?Q (item_book_id i)) (book_copies s0) = []
            \<longrightarrow> (\<exists>f \<in> set failed'. fb_book_id f = item_book_id i
                                      \<and> fb_reason f = ''No available copies'')"
    proof (intro ballI impI)
      fix i assume i: "i \<in> set (item # rest)"
        and e: "filter (?Q (item_book_id i)) (book_copies s0) = []"
      show "\<exists>f \<in> set failed'. fb_book_id f = item_book_id i
                                      \<and> fb_reason f = ''No available copies''"
      proof (cases "i = item")
        case True
        with fbf fbin show ?thesis by blast
      next
        case False
        with i have "i \<in> set rest" by simp
        with IH e show ?thesis by blast
      qed
    qed
    from 1 2 3 show ?thesis by blast
  next
    case (Some copy)
    define br where "br =
       \<lparr>br_id = fresh_id (map br_id (borrow_records cur)),
        br_copy_id = copy_id copy, br_user_id = user,
        borrowed_at = fst (stamps (length recs)),
        due_date = due, returned_at = None, br_status = PENDING,
        br_created_at = snd (stamps (length recs))\<rparr>"
    define cur2 where "cur2 =
       cur\<lparr>book_copies := set_copy_status (copy_id copy) BORROWED (book_copies cur),
           borrow_records := borrow_records cur @ [br]\<rparr>"
    from Cons.prems(1) Some have
      run: "checkout_items af s0 user due stamps rest (cur2, recs @ [br], failed)
              = (cur', recs', failed')"
      by (simp add: Let_def br_def cur2_def)
    have inv2: "\<forall>b. filter (?Q b) (book_copies s0) = []
             \<longrightarrow> filter (?Q b) (book_copies cur2) = []"
    proof (intro allI impI)
      fix b assume "filter (?Q b) (book_copies s0) = []"
      with Cons.prems(2) have "filter (?Q b) (book_copies cur) = []" by blast
      then show "filter (?Q b) (book_copies cur2) = []"
        unfolding cur2_def using no_available_copy_after_borrow by simp
    qed
    note IH = Cons.IH[OF run inv2]
    have here: "filter (?Q (item_book_id item)) (book_copies s0) \<noteq> []"
    proof
      assume e: "filter (?Q (item_book_id item)) (book_copies s0) = []"
      with Cons.prems(2) have "filter (?Q (item_book_id item)) (book_copies cur) = []" by blast
      with e have "filter (?Q (item_book_id item)) (book_copies (if af then cur else s0)) = []"
        by simp
      then have "find (?Q (item_book_id item)) (book_copies (if af then cur else s0)) = None"
        unfolding find_None_iff filter_empty_conv by blast
      with Some show False by simp
    qed
    have 1: "set failed \<subseteq> set failed'" using IH by blast
    have 2: "\<forall>f \<in> set failed'. f \<in> set failed
            \<or> (fb_reason f = ''No available copies''
                \<and> (\<exists>i \<in> set (item # rest). fb_book_id f = item_book_id i))"
    proof
      fix f assume "f \<in> set failed'"
      with IH have "f \<in> set failed
            \<or> (fb_reason f = ''No available copies''
                \<and> (\<exists>i \<in> set rest. fb_book_id f = item_book_id i))" by blast
      then show "f \<in> set failed
            \<or> (fb_reason f = ''No available copies''
                \<and> (\<exists>i \<in> set (item # rest). fb_book_id f = item_book_id i))"
        by auto
    qed
    have 3: "\<forall>i \<in> set (item # rest).
            filter (?Q (item_book_id i)) (book_copies s0) = []
            \<longrightarrow> (\<exists>f \<in> set failed'. fb_book_id f = item_book_id i
                                      \<and> fb_reason f = ''No available copies'')"
    proof (intro ballI impI)
      fix i assume i: "i \<in> set (item # rest)"
        and e: "filter (?Q (item_book_id i)) (book_copies s0) = []"
      from e here have "i \<noteq> item" by blast
      with i have "i \<in> set rest" by simp
      with IH e show "\<exists>f \<in> set failed'. fb_book_id f = item_book_id i
                                      \<and> fb_reason f = ''No available copies''" by blast
    qed
    from 1 2 3 show ?thesis by blast
  qed
qed

text \<open>
  C3. If the cart of the user holds an item whose book has no AVAILABLE copy, checkout
  fails and returns the state as it was before the call: no borrow record is added,
  every copy has the status it had (the copies taken for the other items are AVAILABLE
  again) and the cart items are unchanged. The failure lists, with the reason, every
  item of the cart whose book has no AVAILABLE copy, and lists nothing that is not an
  item of the cart. This holds whether or not the session flushes before a query.
\<close>

theorem checkout_is_all_or_nothing:
  "find (\<lambda>c. cart_user_id c = user) (carts s) = Some cart \<Longrightarrow>
   i0 \<in> set (cart_items s) \<Longrightarrow> item_cart_id i0 = cart_id cart \<Longrightarrow>
   filter (\<lambda>c. copy_book_id c = item_book_id i0 \<and> copy_status c = AVAILABLE) (book_copies s) = [] \<Longrightarrow>
   \<exists>failed.
      checkout_cart af user requested_due now stamps s = (Inl (CheckoutFailed failed), s)
      \<and> (\<forall>i \<in> set (cart_items s).
            item_cart_id i = cart_id cart
            \<and> filter (\<lambda>c. copy_book_id c = item_book_id i \<and> copy_status c = AVAILABLE)
                 (book_copies s) = []
            \<longrightarrow> (\<exists>f \<in> set failed. fb_book_id f = item_book_id i
                                     \<and> fb_reason f = ''No available copies''))
      \<and> (\<forall>f \<in> set failed.
            fb_reason f = ''No available copies''
            \<and> (\<exists>i \<in> set (cart_items s). item_cart_id i = cart_id cart
                                          \<and> fb_book_id f = item_book_id i))"
proof -
  assume c: "find (\<lambda>c. cart_user_id c = user) (carts s) = Some cart"
    and i0: "i0 \<in> set (cart_items s)" "item_cart_id i0 = cart_id cart"
    and e0: "filter (\<lambda>c. copy_book_id c = item_book_id i0 \<and> copy_status c = AVAILABLE)
               (book_copies s) = []"
  let ?items = "filter (\<lambda>i. item_cart_id i = cart_id cart) (cart_items s)"
  let ?due = "case requested_due of Some d \<Rightarrow> d | None \<Rightarrow> now + days 14"
  obtain cur recs failed where
    l: "checkout_items af s user ?due stamps ?items (s, [], []) = (cur, recs, failed)"
    by (cases "checkout_items af s user ?due stamps ?items (s, [], [])") blast
  have inv: "\<forall>b. filter (\<lambda>c. copy_book_id c = b \<and> copy_status c = AVAILABLE) (book_copies s) = []
             \<longrightarrow> filter (\<lambda>c. copy_book_id c = b \<and> copy_status c = AVAILABLE) (book_copies s) = []"
    by blast
  note F = checkout_items_failed[OF l inv]
  from i0 have i0in: "i0 \<in> set ?items" by simp
  have ne: "?items \<noteq> []"
    using length_pos_if_in_set[OF i0in] by simp
  from F i0in e0 obtain f0 where "f0 \<in> set failed" by blast
  from length_pos_if_in_set[OF this] have fne: "failed \<noteq> []"
    by simp
  from c l ne fne have res:
    "checkout_cart af user requested_due now stamps s = (Inl (CheckoutFailed failed), s)"
    by (simp add: checkout_cart_def Let_def)
  have a: "\<forall>i \<in> set (cart_items s).
            item_cart_id i = cart_id cart
            \<and> filter (\<lambda>c. copy_book_id c = item_book_id i \<and> copy_status c = AVAILABLE)
                 (book_copies s) = []
            \<longrightarrow> (\<exists>f \<in> set failed. fb_book_id f = item_book_id i
                                     \<and> fb_reason f = ''No available copies'')"
  proof (intro ballI impI)
    fix i assume "i \<in> set (cart_items s)"
      and h: "item_cart_id i = cart_id cart
            \<and> filter (\<lambda>c. copy_book_id c = item_book_id i \<and> copy_status c = AVAILABLE)
                 (book_copies s) = []"
    then have "i \<in> set ?items" by simp
    with F h show "\<exists>f \<in> set failed. fb_book_id f = item_book_id i
                                     \<and> fb_reason f = ''No available copies''" by blast
  qed
  have b: "\<forall>f \<in> set failed.
            fb_reason f = ''No available copies''
            \<and> (\<exists>i \<in> set (cart_items s). item_cart_id i = cart_id cart
                                          \<and> fb_book_id f = item_book_id i)"
  proof
    fix f assume "f \<in> set failed"
    with F have "fb_reason f = ''No available copies''
                \<and> (\<exists>i \<in> set ?items. fb_book_id f = item_book_id i)" by simp
    then show "fb_reason f = ''No available copies''
            \<and> (\<exists>i \<in> set (cart_items s). item_cart_id i = cart_id cart
                                          \<and> fb_book_id f = item_book_id i)"
      by auto
  qed
  from res a b show ?thesis by blast
qed

theorem checkout_is_all_or_nothing_witness:
  "find (\<lambda>c. cart_user_id c = 10) (carts ex_cart_taken_db) = Some \<lparr>cart_id = 1, cart_user_id = 10\<rparr>
   \<and> filter (\<lambda>c. copy_book_id c = 2 \<and> copy_status c = AVAILABLE) (book_copies ex_cart_taken_db) = []
   \<and> fst (checkout_cart True 10 None (hours 1) (\<lambda>k. (hours 1, hours 1)) ex_cart_taken_db)
       = Inl (CheckoutFailed [\<lparr>fb_book_id = 2, fb_book_title = ''Emma'',
                                fb_reason = ''No available copies''\<rparr>])
   \<and> snd (checkout_cart True 10 None (hours 1) (\<lambda>k. (hours 1, hours 1)) ex_cart_taken_db)
       = ex_cart_taken_db
   \<and> snd (checkout_cart False 10 None (hours 1) (\<lambda>k. (hours 1, hours 1)) ex_cart_taken_db)
       = ex_cart_taken_db
   \<and> map copy_status (book_copies ex_cart_taken_db) = [AVAILABLE, BORROWED]"
proof -
  let ?i = "\<lparr>item_id = 2, item_cart_id = 1, item_book_id = 2\<rparr>"
  have c: "find (\<lambda>c. cart_user_id c = 10) (carts ex_cart_taken_db)
             = Some \<lparr>cart_id = 1, cart_user_id = 10\<rparr>"
    by code_simp
  have i: "?i \<in> set (cart_items ex_cart_taken_db)" by code_simp
  have ic: "item_cart_id ?i = cart_id \<lparr>cart_id = 1, cart_user_id = 10\<rparr>" by simp
  have e: "filter (\<lambda>c. copy_book_id c = 2 \<and> copy_status c = AVAILABLE)
             (book_copies ex_cart_taken_db) = []"
    by code_simp
  then have e': "filter (\<lambda>c. copy_book_id c = item_book_id ?i \<and> copy_status c = AVAILABLE)
             (book_copies ex_cart_taken_db) = []"
    by simp
  from checkout_is_all_or_nothing[OF c i ic e', of True None "hours 1" "\<lambda>k. (hours 1, hours 1)"]
  have t: "snd (checkout_cart True 10 None (hours 1) (\<lambda>k. (hours 1, hours 1)) ex_cart_taken_db)
       = ex_cart_taken_db"
    by auto
  from checkout_is_all_or_nothing[OF c i ic e', of False None "hours 1" "\<lambda>k. (hours 1, hours 1)"]
  have f: "snd (checkout_cart False 10 None (hours 1) (\<lambda>k. (hours 1, hours 1)) ex_cart_taken_db)
       = ex_cart_taken_db"
    by auto
  have l: "fst (checkout_cart True 10 None (hours 1) (\<lambda>k. (hours 1, hours 1)) ex_cart_taken_db)
       = Inl (CheckoutFailed [\<lparr>fb_book_id = 2, fb_book_title = ''Emma'',
                                fb_reason = ''No available copies''\<rparr>])"
    by code_simp
  have m: "map copy_status (book_copies ex_cart_taken_db) = [AVAILABLE, BORROWED]"
    by code_simp
  from c e l t f m show ?thesis by blast
qed

section \<open>Creating a reservation\<close>

lemma scalar_one_or_none_le1:
  "length xs \<le> 1 \<Longrightarrow> scalar_one_or_none xs = Inr (case xs of [] \<Rightarrow> None | x # _ \<Rightarrow> Some x)"
  by (cases xs rule: scalar_one_or_none.cases) simp_all

text \<open>
  C6 (amended). For a book that exists and a user with at most one PENDING reservation
  for it: creation fails with the duplicate rejection when the user has a PENDING
  reservation for the book; otherwise it fails with the copy-available rejection when
  the book has an AVAILABLE copy; otherwise it appends a PENDING reservation whose
  \<^verbatim>\<open>reserved_at\<close> is the first reading of the clock and whose \<^verbatim>\<open>expires_at\<close> is the
  second reading plus 48 hours, so that the two differ by 48 hours plus the time between
  the readings. Both rejections leave the state as it was.
\<close>

theorem create_reservation_outcomes:
  "find (\<lambda>b. book_id b = book) (books s) = Some b \<Longrightarrow>
   length (filter (\<lambda>r. res_user_id r = user \<and> res_book_id r = book \<and> res_status r = RES_PENDING)
             (reservations s)) \<le> 1 \<Longrightarrow>
   (if \<exists>r \<in> set (reservations s).
         res_user_id r = user \<and> res_book_id r = book \<and> res_status r = RES_PENDING
    then create_reservation user book t_reserved t_expires t_created s
           = (Inl DuplicateReservation, s)
    else if \<exists>c \<in> set (book_copies s). copy_book_id c = book \<and> copy_status c = AVAILABLE
    then create_reservation user book t_reserved t_expires t_created s
           = (Inl CopiesAvailable, s)
    else \<exists>r. create_reservation user book t_reserved t_expires t_created s
                = (Inr r, s\<lparr>reservations := reservations s @ [r]\<rparr>)
             \<and> res_status r = RES_PENDING \<and> res_user_id r = user \<and> res_book_id r = book
             \<and> fulfilled_at r = None \<and> res_id r \<notin> res_id ` set (reservations s)
             \<and> reserved_at r = t_reserved \<and> expires_at r = t_expires + hours 48
             \<and> expires_at r - reserved_at r = hours 48 + (t_expires - t_reserved))"
proof -
  let ?P = "\<lambda>r. res_user_id r = user \<and> res_book_id r = book \<and> res_status r = RES_PENDING"
  let ?Q = "\<lambda>c. copy_book_id c = book \<and> copy_status c = AVAILABLE"
  assume f: "find (\<lambda>b. book_id b = book) (books s) = Some b"
    and le: "length (filter ?P (reservations s)) \<le> 1"
  note sc = scalar_one_or_none_le1[OF le]
  show ?thesis
  proof (cases "\<exists>r \<in> set (reservations s). ?P r")
    case True
    then have "filter ?P (reservations s) \<noteq> []" unfolding filter_empty_conv by blast
    then obtain x xs where "filter ?P (reservations s) = x # xs"
      by (cases "filter ?P (reservations s)") simp_all
    with f sc have "create_reservation user book t_reserved t_expires t_created s
           = (Inl DuplicateReservation, s)"
      by (simp add: create_reservation_def)
    with True show ?thesis by (simp only: if_True)
  next
    case False
    then have e: "filter ?P (reservations s) = []" unfolding filter_empty_conv by blast
    show ?thesis
    proof (cases "\<exists>c \<in> set (book_copies s). ?Q c")
      case True
      then have "filter ?Q (book_copies s) \<noteq> []" unfolding filter_empty_conv by blast
      with f sc e have "create_reservation user book t_reserved t_expires t_created s
           = (Inl CopiesAvailable, s)"
        by (simp add: create_reservation_def)
      with False True show ?thesis by (simp only: if_True if_False)
    next
      case nc: False
      then have q: "filter ?Q (book_copies s) = []" unfolding filter_empty_conv by blast
      define r where "r =
         \<lparr>res_id = fresh_id (map res_id (reservations s)),
          res_user_id = user, res_book_id = book, res_status = RES_PENDING,
          reserved_at = t_reserved, expires_at = t_expires + hours 48,
          fulfilled_at = None, res_created_at = t_created\<rparr>"
      from f sc e q have c: "create_reservation user book t_reserved t_expires t_created s
                = (Inr r, s\<lparr>reservations := reservations s @ [r]\<rparr>)"
        by (simp add: create_reservation_def Let_def r_def)
      have fr: "res_id r \<notin> res_id ` set (reservations s)"
        using fresh_id_notin[of "map res_id (reservations s)"] by (simp add: r_def)
      have fields: "res_status r = RES_PENDING \<and> res_user_id r = user \<and> res_book_id r = book
             \<and> fulfilled_at r = None
             \<and> reserved_at r = t_reserved \<and> expires_at r = t_expires + hours 48
             \<and> expires_at r - reserved_at r = hours 48 + (t_expires - t_reserved)"
        by (simp add: r_def)
      from c fr fields have "\<exists>r. create_reservation user book t_reserved t_expires t_created s
                = (Inr r, s\<lparr>reservations := reservations s @ [r]\<rparr>)
             \<and> res_status r = RES_PENDING \<and> res_user_id r = user \<and> res_book_id r = book
             \<and> fulfilled_at r = None \<and> res_id r \<notin> res_id ` set (reservations s)
             \<and> reserved_at r = t_reserved \<and> expires_at r = t_expires + hours 48
             \<and> expires_at r - reserved_at r = hours 48 + (t_expires - t_reserved)"
        by (intro exI[of _ r]) (simp only: simp_thms)
      with False nc show ?thesis by (simp only: if_False)
    qed
  qed
qed

theorem create_reservation_outcomes_witness:
  "find (\<lambda>b. book_id b = 1) (books ex_queue_db) = Some \<lparr>book_id = 1, title = ''Dune''\<rparr>
   \<and> length (filter (\<lambda>r. res_user_id r = 13 \<and> res_book_id r = 1 \<and> res_status r = RES_PENDING)
               (reservations ex_queue_db)) \<le> 1
   \<and> (\<exists>r. fst (create_reservation 13 1 (hours 30) (hours 30) (hours 30) ex_queue_db) = Inr r
          \<and> res_status r = RES_PENDING \<and> reserved_at r = hours 30
          \<and> expires_at r = hours 30 + hours 48)"
proof -
  have f: "find (\<lambda>b. book_id b = 1) (books ex_queue_db) = Some \<lparr>book_id = 1, title = ''Dune''\<rparr>"
    by (simp add: ex_queue_db_def)
  have l: "length (filter (\<lambda>r. res_user_id r = 13 \<and> res_book_id r = 1 \<and> res_status r = RES_PENDING)
               (reservations ex_queue_db)) \<le> 1"
    by (simp add: ex_queue_db_def)
  have nA: "\<not> (\<exists>r \<in> set (reservations ex_queue_db).
               res_user_id r = 13 \<and> res_book_id r = 1 \<and> res_status r = RES_PENDING)"
    by (simp add: ex_queue_db_def)
  have nB: "\<not> (\<exists>c \<in> set (book_copies ex_queue_db). copy_book_id c = 1 \<and> copy_status c = AVAILABLE)"
    by (simp add: ex_queue_db_def)
  from create_reservation_outcomes[OF f l, of "hours 30" "hours 30" "hours 30"] nA nB
  obtain r where r:
    "create_reservation 13 1 (hours 30) (hours 30) (hours 30) ex_queue_db
       = (Inr r, ex_queue_db\<lparr>reservations := reservations ex_queue_db @ [r]\<rparr>)"
    "res_status r = RES_PENDING" "reserved_at r = hours 30" "expires_at r = hours 30 + hours 48"
    by (simp only: if_False) blast
  from r(1) have "fst (create_reservation 13 1 (hours 30) (hours 30) (hours 30) ex_queue_db) = Inr r"
    by simp
  with r(2,3,4) have "\<exists>r. fst (create_reservation 13 1 (hours 30) (hours 30) (hours 30) ex_queue_db) = Inr r
          \<and> res_status r = RES_PENDING \<and> reserved_at r = hours 30
          \<and> expires_at r = hours 30 + hours 48"
    by blast
  with f l show ?thesis by blast
qed

text \<open>The claim as it was written fails twice. The handler reads the clock once for
  \<^verbatim>\<open>reserved_at\<close> and again for \<^verbatim>\<open>expires_at\<close>: with readings one microsecond
  apart the reservation does not expire 48 hours after it was reserved. And the
  duplicate check comes first: after the return of the example (at 50 hours, the head of
  the queue has expired and stays PENDING) the copy is AVAILABLE, and the request of
  user 11 is rejected as a duplicate, not for the available copy.\<close>

theorem create_reservation_counterexample:
  "(case fst (create_reservation 13 1 0 1 1 ex_queue_db) of
      Inl e \<Rightarrow> False
    | Inr r \<Rightarrow> reserved_at r = 0 \<and> expires_at r = hours 48 + 1
               \<and> expires_at r \<noteq> reserved_at r + hours 48)
   \<and> map copy_status (book_copies
         (snd (book_copies_return_book 1 10 (hours 50) (hours 50) (hours 50) ex_queue_db)))
       = [AVAILABLE]
   \<and> fst (create_reservation 11 1 (hours 51) (hours 51) (hours 51)
            (snd (book_copies_return_book 1 10 (hours 50) (hours 50) (hours 50) ex_queue_db)))
       = Inl DuplicateReservation"
  by code_simp

section \<open>Copies and open loans stay consistent\<close>

lemma find_SomeD: "find P xs = Some x \<Longrightarrow> x \<in> set xs \<and> P x"
  by (induction xs) (simp_all split: if_splits)

lemma length_filter_replace:
  "distinct rows \<Longrightarrow> r \<in> set rows \<Longrightarrow>
   length (filter P (map (\<lambda>x. if x = r then y else x) rows)) + (if P r then 1 else 0)
     = length (filter P rows) + (if P y then 1 else 0)"
proof (induction rows)
  case Nil
  then show ?case by simp
next
  case (Cons x xs)
  show ?case
  proof (cases "x = r")
    case True
    with Cons.prems have "r \<notin> set xs" by simp
    then have "map (\<lambda>x. if x = r then y else x) xs = xs" by (intro map_idI) auto
    with True show ?thesis by simp
  next
    case False
    with Cons.prems have "distinct xs" "r \<in> set xs" by simp_all
    from Cons.IH[OF this] False show ?thesis by simp
  qed
qed

lemma update_where_unique:
  assumes "distinct (map key rows)" and "r \<in> set rows"
  shows "update_where (\<lambda>x. key x = key r) f rows = map (\<lambda>x. if x = r then f r else x) rows"
proof -
  have inj: "inj_on key (set rows)" using assms(1) by (simp add: distinct_map)
  have "(if key x = key r then f x else x) = (if x = r then f r else x)" if "x \<in> set rows" for x
  proof (cases "x = r")
    case True then show ?thesis by simp
  next
    case False
    with inj_onD[OF inj _ that assms(2)] have "key x \<noteq> key r" by blast
    with False show ?thesis by simp
  qed
  then show ?thesis unfolding update_where_def by (intro map_cong[OF refl])
qed

lemma open_loans_update:
  assumes "distinct (map br_id recs)" and "r \<in> set recs"
  shows "length (open_loans cid (update_where (\<lambda>x. br_id x = br_id r) f recs))
           + (if br_copy_id r = cid \<and> (br_status r = PENDING \<or> br_status r = ACTIVE) then 1 else 0)
         = length (open_loans cid recs)
           + (if br_copy_id (f r) = cid \<and> (br_status (f r) = PENDING \<or> br_status (f r) = ACTIVE)
              then 1 else 0)"
proof -
  have d: "distinct recs" using assms(1) by (simp add: distinct_map)
  show ?thesis
    unfolding open_loans_def update_where_unique[OF assms]
    by (rule length_filter_replace[OF d assms(2)])
qed

lemma open_loans_append:
  "length (open_loans cid (recs @ [r]))
     = length (open_loans cid recs)
       + (if br_copy_id r = cid \<and> (br_status r = PENDING \<or> br_status r = ACTIVE) then 1 else 0)"
  by (simp add: open_loans_def)

lemma lending_consistentI:
  assumes "distinct (map copy_id (book_copies s))" and "distinct (map br_id (borrow_records s))"
    and "\<And>c. c \<in> set (book_copies s) \<Longrightarrow>
           length (open_loans (copy_id c) (borrow_records s))
             = (if copy_status c = BORROWED then 1 else 0)"
  shows "lending_consistent s"
  unfolding lending_consistent_def keys_unique_def list_all_iff using assms by blast

lemma lending_consistentD:
  assumes "lending_consistent s"
  shows "distinct (map copy_id (book_copies s))" and "distinct (map br_id (borrow_records s))"
    and "\<And>c. c \<in> set (book_copies s) \<Longrightarrow>
           length (open_loans (copy_id c) (borrow_records s))
             = (if copy_status c = BORROWED then 1 else 0)"
  using assms unfolding lending_consistent_def keys_unique_def list_all_iff by blast+

lemma lending_consistent_implies_invariant:
  assumes "lending_consistent s"
  shows "copy_loan_invariant s"
proof -
  have "(copy_status c = BORROWED) = (length (open_loans (copy_id c) (borrow_records s)) = 1)"
    if "c \<in> set (book_copies s)" for c
    using lending_consistentD(3)[OF assms that] by (cases "copy_status c = BORROWED") simp_all
  then show ?thesis unfolding copy_loan_invariant_def list_all_iff by blast
qed

lemma set_copy_status_ids: "map copy_id (set_copy_status cid st rows) = map copy_id rows"
  unfolding set_copy_status_def by (rule update_where_keys) simp

lemma set_copy_status_cases:
  assumes "c \<in> set (set_copy_status cid st rows)"
  obtains a where "a \<in> set rows" "copy_id a = cid" "c = a\<lparr>copy_status := st\<rparr>"
        | "c \<in> set rows" "copy_id c \<noteq> cid"
proof -
  from assms obtain a where a: "a \<in> set rows"
    "c = (if copy_id a = cid then a\<lparr>copy_status := st\<rparr> else a)"
    unfolding set_copy_status_def using update_where_mem by fast
  show ?thesis
  proof (cases "copy_id a = cid")
    case True
    with a have "c = a\<lparr>copy_status := st\<rparr>" by simp
    with a(1) True show ?thesis by (rule that(1))
  next
    case False
    with a have "c = a" by simp
    with a(1) False show ?thesis by (intro that(2)) simp_all
  qed
qed

text \<open>A loan is opened on a copy that is on the shelf.\<close>

lemma acquire_consistent:
  assumes inv: "lending_consistent s"
    and copy: "copy \<in> set (book_copies s)" "copy_status copy = AVAILABLE"
    and br: "br_id br = fresh_id (map br_id (borrow_records s))" "br_copy_id br = copy_id copy"
      "br_status br = PENDING \<or> br_status br = ACTIVE"
    and cps: "book_copies s' = set_copy_status (copy_id copy) BORROWED (book_copies s)"
    and recs: "borrow_records s' = borrow_records s @ [br]"
  shows "lending_consistent s'"
proof (rule lending_consistentI)
  show "distinct (map copy_id (book_copies s'))"
    unfolding cps set_copy_status_ids by (rule lending_consistentD(1)[OF inv])
  show "distinct (map br_id (borrow_records s'))"
    unfolding recs using lending_consistentD(2)[OF inv] br(1)
      fresh_id_notin[of "map br_id (borrow_records s)"] by simp
  fix c assume "c \<in> set (book_copies s')"
  then have c: "c \<in> set (set_copy_status (copy_id copy) BORROWED (book_copies s))"
    by (simp only: cps)
  have zero: "length (open_loans (copy_id copy) (borrow_records s)) = 0"
    using lending_consistentD(3)[OF inv copy(1)] copy(2) by simp
  from c show "length (open_loans (copy_id c) (borrow_records s'))
             = (if copy_status c = BORROWED then 1 else 0)"
  proof (cases rule: set_copy_status_cases)
    case (1 a)
    then have "copy_id c = copy_id copy" "copy_status c = BORROWED" by simp_all
    with zero br show ?thesis unfolding recs open_loans_append by simp
  next
    case 2
    from lending_consistentD(3)[OF inv 2(1)] 2(2) br show ?thesis
      unfolding recs open_loans_append by simp
  qed
qed

text \<open>An open loan is closed and its copy goes back to the shelf.\<close>

lemma close_loan_consistent:
  assumes inv: "lending_consistent s"
    and r: "r \<in> set (borrow_records s)" "br_status r = PENDING \<or> br_status r = ACTIVE"
    and f: "\<And>x. br_id (f x) = br_id x" "br_status (f r) \<noteq> PENDING" "br_status (f r) \<noteq> ACTIVE"
    and cps: "book_copies s' = set_copy_status (br_copy_id r) AVAILABLE (book_copies s)"
    and recs: "borrow_records s' = update_where (\<lambda>x. br_id x = br_id r) f (borrow_records s)"
  shows "lending_consistent s'"
proof (rule lending_consistentI)
  show "distinct (map copy_id (book_copies s'))"
    unfolding cps set_copy_status_ids by (rule lending_consistentD(1)[OF inv])
  have ids: "map br_id (borrow_records s') = map br_id (borrow_records s)"
    unfolding recs by (rule update_where_keys) (rule f(1))
  show "distinct (map br_id (borrow_records s'))"
    unfolding ids by (rule lending_consistentD(2)[OF inv])
  note upd = open_loans_update[OF lending_consistentD(2)[OF inv] r(1), of _ f]
  fix c assume "c \<in> set (book_copies s')"
  then have c: "c \<in> set (set_copy_status (br_copy_id r) AVAILABLE (book_copies s))"
    by (simp only: cps)
  from c show "length (open_loans (copy_id c) (borrow_records s'))
             = (if copy_status c = BORROWED then 1 else 0)"
  proof (cases rule: set_copy_status_cases)
    case (1 a)
    from upd[of "br_copy_id r"] r(2) f(2,3)
    have "length (open_loans (br_copy_id r) (borrow_records s')) + 1
            = length (open_loans (br_copy_id r) (borrow_records s))"
      unfolding recs by simp
    moreover from lending_consistentD(3)[OF inv 1(1)] 1(2)
    have "length (open_loans (br_copy_id r) (borrow_records s)) \<le> 1" by simp
    ultimately have "length (open_loans (br_copy_id r) (borrow_records s')) = 0" by linarith
    with 1 show ?thesis by simp
  next
    case 2
    from upd[of "copy_id c"] 2(2) f(2,3)
    have "length (open_loans (copy_id c) (borrow_records s'))
            = length (open_loans (copy_id c) (borrow_records s))"
      unfolding recs by simp
    with lending_consistentD(3)[OF inv 2(1)] show ?thesis by simp
  qed
qed

text \<open>A record changes without opening or closing a loan, or a copy changes without
  changing its key or status.\<close>

lemma relabel_loan_consistent:
  assumes inv: "lending_consistent s"
    and r: "r \<in> set (borrow_records s)" "br_status r = PENDING \<or> br_status r = ACTIVE"
    and f: "\<And>x. br_id (f x) = br_id x" "br_copy_id (f r) = br_copy_id r"
      "br_status (f r) = PENDING \<or> br_status (f r) = ACTIVE"
    and cps: "book_copies s' = book_copies s"
    and recs: "borrow_records s' = update_where (\<lambda>x. br_id x = br_id r) f (borrow_records s)"
  shows "lending_consistent s'"
proof (rule lending_consistentI)
  show "distinct (map copy_id (book_copies s'))"
    unfolding cps by (rule lending_consistentD(1)[OF inv])
  have ids: "map br_id (borrow_records s') = map br_id (borrow_records s)"
    unfolding recs by (rule update_where_keys) (rule f(1))
  show "distinct (map br_id (borrow_records s'))"
    unfolding ids by (rule lending_consistentD(2)[OF inv])
  fix c assume "c \<in> set (book_copies s')"
  then have c: "c \<in> set (book_copies s)" by (simp only: cps)
  from open_loans_update[OF lending_consistentD(2)[OF inv] r(1), of "copy_id c" f] r(2) f(2,3)
  have "length (open_loans (copy_id c) (borrow_records s'))
          = length (open_loans (copy_id c) (borrow_records s))"
    unfolding recs by simp
  with lending_consistentD(3)[OF inv c] show "length (open_loans (copy_id c) (borrow_records s'))
             = (if copy_status c = BORROWED then 1 else 0)" by simp
qed

lemma relabel_copy_consistent:
  assumes inv: "lending_consistent s"
    and g: "\<And>x. copy_id (g x) = copy_id x" "\<And>x. copy_status (g x) = copy_status x"
    and cps: "book_copies s' = update_where p g (book_copies s)"
    and recs: "borrow_records s' = borrow_records s"
  shows "lending_consistent s'"
proof (rule lending_consistentI)
  have ids: "map copy_id (book_copies s') = map copy_id (book_copies s)"
    unfolding cps by (rule update_where_keys) (rule g(1))
  show "distinct (map copy_id (book_copies s'))"
    unfolding ids by (rule lending_consistentD(1)[OF inv])
  show "distinct (map br_id (borrow_records s'))"
    unfolding recs by (rule lending_consistentD(2)[OF inv])
  fix c assume "c \<in> set (book_copies s')"
  then obtain a where a: "a \<in> set (book_copies s)" "c = (if p a then g a else a)"
    unfolding cps using update_where_mem by fast
  then have "copy_id c = copy_id a" "copy_status c = copy_status a"
    by (cases "p a"; simp add: g)+
  with lending_consistentD(3)[OF inv a(1)]
  show "length (open_loans (copy_id c) (borrow_records s'))
             = (if copy_status c = BORROWED then 1 else 0)"
    unfolding recs by simp
qed

lemma lending_consistent_cong:
  assumes "lending_consistent s" "book_copies s' = book_copies s"
    "borrow_records s' = borrow_records s"
  shows "lending_consistent s'"
  using assms unfolding lending_consistent_def keys_unique_def by simp

lemma borrow_book_consistent:
  assumes "lending_consistent s"
  shows "lending_consistent (snd (borrow_book cid user due t_borrowed t_created s))"
proof (cases "borrow_book cid user due t_borrowed t_created s")
  case (Pair out s')
  show ?thesis
  proof (cases out)
    case (Inl e)
    with Pair have "s' = s"
      by (simp add: borrow_book_def Let_def split: option.splits if_splits)
    with Pair assms show ?thesis by simp
  next
    case (Inr r)
    with Pair have run: "borrow_book cid user due t_borrowed t_created s = (Inr r, s')" by simp
    from borrow_book_Inr[OF run] obtain copy where
      rdef: "r = \<lparr>br_id = fresh_id (map br_id (borrow_records s)),
              br_copy_id = cid, br_user_id = user, borrowed_at = t_borrowed,
              due_date = due, returned_at = None, br_status = ACTIVE,
              br_created_at = t_created\<rparr>"
      and s': "s' = s\<lparr>book_copies := set_copy_status cid BORROWED (book_copies s),
                  borrow_records := borrow_records s @ [r]\<rparr>"
      and c: "find (\<lambda>c. copy_id c = cid) (book_copies s) = Some copy"
        "copy_status copy = AVAILABLE"
      by (elim conjE exE)
    from find_SomeD[OF c(1)] have cin: "copy \<in> set (book_copies s)" and cid: "copy_id copy = cid"
      by simp_all
    have "lending_consistent s'"
    proof (rule acquire_consistent[OF assms cin c(2), of r])
      show "br_id r = fresh_id (map br_id (borrow_records s))" by (simp add: rdef)
      show "br_copy_id r = copy_id copy" by (simp add: rdef cid)
      show "br_status r = PENDING \<or> br_status r = ACTIVE" by (simp add: rdef)
      show "book_copies s' = set_copy_status (copy_id copy) BORROWED (book_copies s)"
        by (simp add: s' cid)
      show "borrow_records s' = borrow_records s @ [r]" by (simp add: s')
    qed
    with Pair show ?thesis by simp
  qed
qed

lemma book_copies_return_book_consistent:
  assumes "lending_consistent s"
  shows "lending_consistent (snd (book_copies_return_book cid user t_returned t_check t_fulfilled s))"
proof (cases "book_copies_return_book cid user t_returned t_check t_fulfilled s")
  case (Pair out s')
  show ?thesis
  proof (cases out)
    case (Inl e)
    with Pair have "s' = s"
      by (simp add: book_copies_return_book_def split: option.splits sum.splits)
    with Pair assms show ?thesis by simp
  next
    case (Inr rec)
    with Pair have run:
      "book_copies_return_book cid user t_returned t_check t_fulfilled s = (Inr rec, s')" by simp
    from book_copies_return_book_Inr[OF run] obtain copy br where
      "find (\<lambda>c. copy_id c = cid) (book_copies s) = Some copy"
      and flt: "filter (\<lambda>r. br_copy_id r = cid \<and> br_user_id r = user \<and> br_status r = ACTIVE)
                     (borrow_records s) = [br]"
      and "rec = br\<lparr>returned_at := Some t_returned, br_status := RETURNED\<rparr>"
      and s': "s' = s\<lparr>borrow_records :=
                    update_where (\<lambda>r. br_id r = br_id br)
                      (\<lambda>r. r\<lparr>returned_at := Some t_returned, br_status := RETURNED\<rparr>)
                      (borrow_records s),
                  book_copies := set_copy_status cid AVAILABLE (book_copies s),
                  reservations :=
                    fulfill_on_return (copy_book_id copy) t_check t_fulfilled (reservations s)\<rparr>"
      by (elim exE conjE)
    have "br \<in> set (filter (\<lambda>r. br_copy_id r = cid \<and> br_user_id r = user \<and> br_status r = ACTIVE)
                     (borrow_records s))"
      unfolding flt by simp
    then have br: "br \<in> set (borrow_records s)" "br_copy_id br = cid" "br_status br = ACTIVE"
      by simp_all
    have "lending_consistent s'"
    proof (rule close_loan_consistent[OF assms br(1),
            of "\<lambda>r. r\<lparr>returned_at := Some t_returned, br_status := RETURNED\<rparr>"])
      show "br_status br = PENDING \<or> br_status br = ACTIVE" using br(3) by simp
      show "book_copies s' = set_copy_status (br_copy_id br) AVAILABLE (book_copies s)"
        by (simp add: s' br(2))
      show "borrow_records s' = update_where (\<lambda>x. br_id x = br_id br)
              (\<lambda>r. r\<lparr>returned_at := Some t_returned, br_status := RETURNED\<rparr>) (borrow_records s)"
        by (simp add: s')
    qed simp_all
    with Pair show ?thesis by simp
  qed
qed

lemma confirm_pickup_consistent:
  assumes "lending_consistent s"
  shows "lending_consistent (snd (confirm_pickup record_id t_pickup s))"
proof (cases "find (\<lambda>r. br_id r = record_id) (borrow_records s)")
  case None
  then show ?thesis using assms by (simp add: confirm_pickup_def)
next
  case (Some r)
  from find_SomeD[OF Some] have r: "r \<in> set (borrow_records s)" "br_id r = record_id"
    by simp_all
  show ?thesis
  proof (cases "br_status r = PENDING")
    case False
    with Some show ?thesis using assms by (simp add: confirm_pickup_def)
  next
    case True
    let ?s' = "s\<lparr>borrow_records :=
                    update_where (\<lambda>x. br_id x = record_id)
                      (\<lambda>x. x\<lparr>br_status := ACTIVE, borrowed_at := t_pickup\<rparr>)
                      (borrow_records s)\<rparr>"
    have res: "snd (confirm_pickup record_id t_pickup s) = ?s'"
      using Some True by (simp add: confirm_pickup_def)
    have "lending_consistent ?s'"
    proof (rule relabel_loan_consistent[OF assms r(1),
            of "\<lambda>x. x\<lparr>br_status := ACTIVE, borrowed_at := t_pickup\<rparr>"])
      show "br_status r = PENDING \<or> br_status r = ACTIVE" using True by simp
      show "borrow_records ?s' = update_where (\<lambda>x. br_id x = br_id r)
              (\<lambda>x. x\<lparr>br_status := ACTIVE, borrowed_at := t_pickup\<rparr>) (borrow_records s)"
        by (simp add: r(2))
    qed simp_all
    with res show ?thesis by simp
  qed
qed

lemma borrowing_return_book_consistent:
  assumes "lending_consistent s"
    and "keeps_consistency (DeskReturn record_id t_returned) s"
  shows "lending_consistent (snd (borrowing_return_book record_id t_returned s))"
proof (cases "find (\<lambda>r. br_id r = record_id) (borrow_records s)")
  case None
  then show ?thesis using assms(1) by (simp add: borrowing_return_book_def)
next
  case (Some r)
  from find_SomeD[OF Some] have r: "r \<in> set (borrow_records s)" "br_id r = record_id"
    by simp_all
  from assms(2) Some have st:
    "br_status r = PENDING \<or> br_status r = ACTIVE \<or> br_status r = RETURNED" by simp
  show ?thesis
  proof (cases "br_status r = RETURNED")
    case True
    then show ?thesis using assms(1) by (simp add: borrowing_return_book_found[OF Some])
  next
    case False
    let ?s' = "s\<lparr>borrow_records :=
                  update_where (\<lambda>x. br_id x = record_id)
                    (\<lambda>x. x\<lparr>br_status := RETURNED, returned_at := Some t_returned\<rparr>)
                    (borrow_records s),
                book_copies := set_copy_status (br_copy_id r) AVAILABLE (book_copies s)\<rparr>"
    have res: "snd (borrowing_return_book record_id t_returned s) = ?s'"
      using False by (simp add: borrowing_return_book_found[OF Some])
    have "lending_consistent ?s'"
    proof (rule close_loan_consistent[OF assms(1) r(1),
            of "\<lambda>x. x\<lparr>br_status := RETURNED, returned_at := Some t_returned\<rparr>"])
      show "br_status r = PENDING \<or> br_status r = ACTIVE" using st False by simp
      show "borrow_records ?s' = update_where (\<lambda>x. br_id x = br_id r)
              (\<lambda>x. x\<lparr>br_status := RETURNED, returned_at := Some t_returned\<rparr>) (borrow_records s)"
        by (simp add: r(2))
    qed simp_all
    with res show ?thesis by simp
  qed
qed

lemma update_book_copy_consistent:
  assumes "lending_consistent s"
    and "upd_status copy_data = None"
  shows "lending_consistent (snd (update_book_copy cid copy_data s))"
proof (cases "update_book_copy cid copy_data s")
  case (Pair out s')
  show ?thesis
  proof (cases out)
    case (Inl e)
    with Pair have "s' = s"
      by (simp add: update_book_copy_def split: option.splits if_splits)
    with Pair assms show ?thesis by simp
  next
    case (Inr c)
    with Pair have s': "s' = s\<lparr>book_copies :=
                    update_where (\<lambda>c. copy_id c = cid) (apply_copy_update copy_data)
                      (book_copies s)\<rparr>"
      by (simp add: update_book_copy_def split: option.splits if_splits)
    have g: "copy_id (apply_copy_update copy_data x) = copy_id x
             \<and> copy_status (apply_copy_update copy_data x) = copy_status x" for x
      using assms(2) by (cases "upd_barcode copy_data") (simp_all add: apply_copy_update_def)
    have "lending_consistent s'"
      by (rule relabel_copy_consistent[OF assms(1), of "apply_copy_update copy_data" _
                "\<lambda>c. copy_id c = cid"])
         (simp_all add: g s')
    with Pair show ?thesis by simp
  qed
qed

lemma update_where_keep: "x \<in> set rows \<Longrightarrow> \<not> p x \<Longrightarrow> x \<in> set (update_where p f rows)"
  unfolding update_where_def set_map by (rule image_eqI[of _ _ x]) simp_all

lemma cancel_pickup_consistent:
  assumes "lending_consistent s" and "r \<in> set (borrow_records s)" and "br_status r = PENDING"
  shows "lending_consistent (cancel_pickup r s)"
proof (rule close_loan_consistent[OF assms(1,2), of "\<lambda>x. x\<lparr>br_status := CANCELLED\<rparr>"])
  show "br_status r = PENDING \<or> br_status r = ACTIVE" using assms(3) by simp
  show "book_copies (cancel_pickup r s) = set_copy_status (br_copy_id r) AVAILABLE (book_copies s)"
    by (simp add: cancel_pickup_def)
  show "borrow_records (cancel_pickup r s)
          = update_where (\<lambda>x. br_id x = br_id r) (\<lambda>x. x\<lparr>br_status := CANCELLED\<rparr>) (borrow_records s)"
    by (simp add: cancel_pickup_def)
qed simp_all

lemma fold_cancel_pickup_consistent:
  assumes "lending_consistent s" and "distinct (map br_id rs)"
    and "\<forall>r \<in> set rs. r \<in> set (borrow_records s) \<and> br_status r = PENDING"
  shows "lending_consistent (fold cancel_pickup rs s)"
  using assms
proof (induction rs arbitrary: s)
  case Nil
  then show ?case by simp
next
  case (Cons r rs)
  from Cons.prems(3) have r: "r \<in> set (borrow_records s)" "br_status r = PENDING" by simp_all
  have c2: "lending_consistent (cancel_pickup r s)"
    by (rule cancel_pickup_consistent[OF Cons.prems(1) r])
  from Cons.prems(2) have d: "distinct (map br_id rs)" and nr: "br_id r \<notin> br_id ` set rs"
    by simp_all
  have "\<forall>x \<in> set rs. x \<in> set (borrow_records (cancel_pickup r s)) \<and> br_status x = PENDING"
  proof
    fix x assume x: "x \<in> set rs"
    with Cons.prems(3) have xin: "x \<in> set (borrow_records s)" and xp: "br_status x = PENDING"
      by simp_all
    from x nr have "br_id x \<noteq> br_id r" by (metis imageI)
    with xin have "x \<in> set (update_where (\<lambda>y. br_id y = br_id r)
                        (\<lambda>y. y\<lparr>br_status := CANCELLED\<rparr>) (borrow_records s))"
      by (intro update_where_keep) simp_all
    then have "x \<in> set (borrow_records (cancel_pickup r s))" by (simp add: cancel_pickup_def)
    with xp show "x \<in> set (borrow_records (cancel_pickup r s)) \<and> br_status x = PENDING" by simp
  qed
  from Cons.IH[OF c2 d this] show ?case by simp
qed

lemma sweep_consistent:
  assumes "lending_consistent s"
  shows "lending_consistent (cancel_expired_pickups_in_session now s)"
  unfolding sweep_is_fold
proof (rule fold_cancel_pickup_consistent[OF assms])
  show "distinct (map br_id (filter (\<lambda>r. br_status r = PENDING \<and> br_created_at r \<le> now - hours 48)
                               (borrow_records s)))"
    using lending_consistentD(2)[OF assms] by (rule distinct_map_filter)
  show "\<forall>r \<in> set (filter (\<lambda>r. br_status r = PENDING \<and> br_created_at r \<le> now - hours 48)
                     (borrow_records s)).
          r \<in> set (borrow_records s) \<and> br_status r = PENDING"
    by simp
qed

lemma checkout_items_consistent:
  assumes "checkout_items af s0 user due stamps items (cur, recs, failed) = (cur', recs', failed')"
    and "lending_consistent cur"
    and "af \<or> (distinct (map item_book_id items)
                \<and> (\<forall>i \<in> set items. \<forall>c. copy_book_id c = item_book_id i
                      \<longrightarrow> (c \<in> set (book_copies cur)) = (c \<in> set (book_copies s0))))"
  shows "lending_consistent cur'"
  using assms
proof (induction items arbitrary: cur recs failed)
  case Nil
  then show ?case by simp
next
  case (Cons item rest)
  let ?Q = "\<lambda>c. copy_book_id c = item_book_id item \<and> copy_status c = AVAILABLE"
  show ?case
  proof (cases "find ?Q (book_copies (if af then cur else s0))")
    case None
    define fb where "fb =
       \<lparr>fb_book_id = item_book_id item,
        fb_book_title =
          (case find (\<lambda>b. book_id b = item_book_id item) (books cur) of
             Some book \<Rightarrow> title book
           | None \<Rightarrow> ''Unknown''),
        fb_reason = ''No available copies''\<rparr>"
    from Cons.prems(1) None have
      run: "checkout_items af s0 user due stamps rest (cur, recs, failed @ [fb])
              = (cur', recs', failed')"
      by (simp add: fb_def)
    from Cons.prems(3) have
      "af \<or> (distinct (map item_book_id rest)
                \<and> (\<forall>i \<in> set rest. \<forall>c. copy_book_id c = item_book_id i
                      \<longrightarrow> (c \<in> set (book_copies cur)) = (c \<in> set (book_copies s0))))"
      by auto
    from Cons.IH[OF run Cons.prems(2) this] show ?thesis .
  next
    case (Some copy)
    define br where "br =
       \<lparr>br_id = fresh_id (map br_id (borrow_records cur)),
        br_copy_id = copy_id copy, br_user_id = user,
        borrowed_at = fst (stamps (length recs)),
        due_date = due, returned_at = None, br_status = PENDING,
        br_created_at = snd (stamps (length recs))\<rparr>"
    define cur2 where "cur2 =
       cur\<lparr>book_copies := set_copy_status (copy_id copy) BORROWED (book_copies cur),
           borrow_records := borrow_records cur @ [br]\<rparr>"
    from Cons.prems(1) Some have
      run: "checkout_items af s0 user due stamps rest (cur2, recs @ [br], failed)
              = (cur', recs', failed')"
      by (simp add: Let_def br_def cur2_def)
    from find_SomeD[OF Some] have
      cq: "copy \<in> set (book_copies (if af then cur else s0))"
      and cb: "copy_book_id copy = item_book_id item" and ca: "copy_status copy = AVAILABLE"
      by simp_all
    have cin: "copy \<in> set (book_copies cur)"
    proof (cases af)
      case True with cq show ?thesis by simp
    next
      case False
      with cq have "copy \<in> set (book_copies s0)" by simp
      moreover from False Cons.prems(3) cb
      have "(copy \<in> set (book_copies cur)) = (copy \<in> set (book_copies s0))" by simp
      ultimately show ?thesis by simp
    qed
    have c2: "lending_consistent cur2"
    proof (rule acquire_consistent[OF Cons.prems(2) cin ca, of br])
      show "br_id br = fresh_id (map br_id (borrow_records cur))" by (simp add: br_def)
      show "br_copy_id br = copy_id copy" by (simp add: br_def)
      show "br_status br = PENDING \<or> br_status br = ACTIVE" by (simp add: br_def)
      show "book_copies cur2 = set_copy_status (copy_id copy) BORROWED (book_copies cur)"
        by (simp add: cur2_def)
      show "borrow_records cur2 = borrow_records cur @ [br]" by (simp add: cur2_def)
    qed
    have j2: "af \<or> (distinct (map item_book_id rest)
                \<and> (\<forall>i \<in> set rest. \<forall>c. copy_book_id c = item_book_id i
                      \<longrightarrow> (c \<in> set (book_copies cur2)) = (c \<in> set (book_copies s0))))"
    proof (cases af)
      case True then show ?thesis by simp
    next
      case False
      with Cons.prems(3) have d: "distinct (map item_book_id (item # rest))"
        and j: "\<forall>i \<in> set (item # rest). \<forall>c. copy_book_id c = item_book_id i
                      \<longrightarrow> (c \<in> set (book_copies cur)) = (c \<in> set (book_copies s0))"
        by simp_all
      have inj: "inj_on copy_id (set (book_copies cur))"
        using lending_consistentD(1)[OF Cons.prems(2)] by (simp add: distinct_map)
      have "(c \<in> set (book_copies cur2)) = (c \<in> set (book_copies s0))"
        if i: "i \<in> set rest" and c: "copy_book_id c = item_book_id i" for i c
      proof -
        from d have "item_book_id item \<notin> item_book_id ` set rest" by simp
        with i have ne: "item_book_id i \<noteq> item_book_id item" by (metis imageI)
        have "(c \<in> set (book_copies cur2)) = (c \<in> set (book_copies cur))"
        proof
          assume "c \<in> set (book_copies cur2)"
          then have "c \<in> set (set_copy_status (copy_id copy) BORROWED (book_copies cur))"
            by (simp add: cur2_def)
          then show "c \<in> set (book_copies cur)"
          proof (cases rule: set_copy_status_cases)
            case (1 a)
            from inj_onD[OF inj 1(2) 1(1) cin] have "a = copy" .
            with 1(3) have "copy_book_id c = copy_book_id copy" by simp
            with c cb ne show ?thesis by simp
          next
            case 2 then show ?thesis by simp
          qed
        next
          assume cc: "c \<in> set (book_copies cur)"
          from c cb ne have "c \<noteq> copy" by auto
          with inj_onD[OF inj _ cc cin] have "copy_id c \<noteq> copy_id copy" by blast
          with cc have "c \<in> set (update_where (\<lambda>x. copy_id x = copy_id copy)
                                  (\<lambda>x. x\<lparr>copy_status := BORROWED\<rparr>) (book_copies cur))"
            by (intro update_where_keep) simp_all
          then show "c \<in> set (book_copies cur2)" by (simp add: cur2_def set_copy_status_def)
        qed
        also from j i c have "\<dots> = (c \<in> set (book_copies s0))" by simp
        finally show ?thesis .
      qed
      with d show ?thesis by simp
    qed
    from Cons.IH[OF run c2 j2] show ?thesis .
  qed
qed

lemma checkout_cart_consistent:
  assumes "lending_consistent s"
    and "keeps_consistency (Checkout af user requested_due now stamps) s"
  shows "lending_consistent (snd (checkout_cart af user requested_due now stamps s))"
proof (cases "checkout_cart af user requested_due now stamps s")
  case (Pair out s')
  show ?thesis
  proof (cases out)
    case (Inl e)
    with Pair have "s' = s"
      by (simp add: checkout_cart_def Let_def split: option.splits prod.splits if_splits)
    with Pair assms show ?thesis by simp
  next
    case (Inr rs)
    with Pair have run: "checkout_cart af user requested_due now stamps s = (Inr rs, s')" by simp
    from checkout_cart_Inr[OF run] obtain cart cur where
      c: "find (\<lambda>c. cart_user_id c = user) (carts s) = Some cart"
      and l: "checkout_items af s user
                 (case requested_due of Some d \<Rightarrow> d | None \<Rightarrow> now + days 14) stamps
                 (filter (\<lambda>i. item_cart_id i = cart_id cart) (cart_items s)) (s, [], [])
               = (cur, rs, [])"
      and s': "s' = cur\<lparr>cart_items :=
                         filter (\<lambda>i. item_cart_id i \<noteq> cart_id cart) (cart_items cur)\<rparr>"
      by (elim exE conjE)
    from assms(2) c have
      "af \<or> (distinct (map item_book_id (filter (\<lambda>i. item_cart_id i = cart_id cart) (cart_items s)))
            \<and> (\<forall>i \<in> set (filter (\<lambda>i. item_cart_id i = cart_id cart) (cart_items s)).
                  \<forall>c. copy_book_id c = item_book_id i
                      \<longrightarrow> (c \<in> set (book_copies s)) = (c \<in> set (book_copies s))))"
      by simp
    from checkout_items_consistent[OF l assms(1) this] have "lending_consistent cur" .
    then have "lending_consistent s'"
      by (rule lending_consistent_cong) (simp_all add: s')
    with Pair show ?thesis by simp
  qed
qed

lemma perform_consistent:
  assumes "lending_consistent s" and "keeps_consistency rq s"
  shows "lending_consistent (perform rq s)"
proof (cases rq)
  case (WalkInBorrow cid user due t_borrowed t_created)
  then show ?thesis using borrow_book_consistent[OF assms(1)] by simp
next
  case (Checkout af user requested_due now stamps)
  with assms(2) have "keeps_consistency (Checkout af user requested_due now stamps) s" by simp
  from checkout_cart_consistent[OF assms(1) this] Checkout show ?thesis by simp
next
  case (CopyReturn cid user t_returned t_check t_fulfilled)
  then show ?thesis using book_copies_return_book_consistent[OF assms(1)] by simp
next
  case (ConfirmPickup record_id t_pickup)
  then show ?thesis using confirm_pickup_consistent[OF assms(1)] by simp
next
  case (DeskReturn record_id t_returned)
  with assms(2) have "keeps_consistency (DeskReturn record_id t_returned) s" by simp
  from borrowing_return_book_consistent[OF assms(1) this] DeskReturn show ?thesis by simp
next
  case (Sweep now)
  then show ?thesis using sweep_consistent[OF assms(1)] by simp
next
  case (CopyUpdate cid copy_data)
  with assms(2) have "upd_status copy_data = None" by simp
  from update_book_copy_consistent[OF assms(1) this] CopyUpdate show ?thesis by simp
qed

text \<open>
  C1 (amended). Take a state in which the keys of copies and of borrow records are
  unique and every copy has exactly one PENDING or ACTIVE borrow record when it is
  BORROWED and none otherwise. After any history of walk-in borrows, checkouts (with
  queries that see the copies taken earlier in the call, or a cart that names no book
  twice), returns of a copy, pickup confirmations, sweeps, returns at the desk of PENDING
  or ACTIVE records and copy updates that do not set the status, the state is of that
  kind again, and so a copy is BORROWED if and only if exactly one PENDING or ACTIVE
  borrow record refers to it.
\<close>

theorem lending_requests_keep_consistency:
  "lending_consistent s \<Longrightarrow> all_keep_consistency rqs s \<Longrightarrow>
   lending_consistent (perform_all rqs s) \<and> copy_loan_invariant (perform_all rqs s)"
proof (induction rqs arbitrary: s)
  case Nil
  then show ?case by (simp add: lending_consistent_implies_invariant)
next
  case (Cons rq rqs)
  from Cons.prems(2) have k: "keeps_consistency rq s"
    and rest: "all_keep_consistency rqs (perform rq s)" by simp_all
  from perform_consistent[OF Cons.prems(1) k] have "lending_consistent (perform rq s)" .
  from Cons.IH[OF this rest] show ?case by simp
qed

theorem lending_requests_keep_consistency_witness:
  "lending_consistent ex_cart_db
   \<and> all_keep_consistency
        [Checkout False 10 None (hours 1) (\<lambda>k. (hours 1, hours 1)),
         ConfirmPickup 1 (hours 2), DeskReturn 1 (hours 3), Sweep (hours 60)] ex_cart_db
   \<and> copy_loan_invariant
        (perform_all
           [Checkout False 10 None (hours 1) (\<lambda>k. (hours 1, hours 1)),
            ConfirmPickup 1 (hours 2), DeskReturn 1 (hours 3), Sweep (hours 60)] ex_cart_db)
   \<and> map copy_status (book_copies
        (perform_all
           [Checkout False 10 None (hours 1) (\<lambda>k. (hours 1, hours 1)),
            ConfirmPickup 1 (hours 2), DeskReturn 1 (hours 3), Sweep (hours 60)] ex_cart_db))
       = [AVAILABLE, AVAILABLE]
   \<and> map br_status (borrow_records
        (perform_all
           [Checkout False 10 None (hours 1) (\<lambda>k. (hours 1, hours 1)),
            ConfirmPickup 1 (hours 2), DeskReturn 1 (hours 3), Sweep (hours 60)] ex_cart_db))
       = [RETURNED, CANCELLED]"
proof -
  let ?rqs = "[Checkout False 10 None (hours 1) (\<lambda>k. (hours 1, hours 1)),
               ConfirmPickup 1 (hours 2), DeskReturn 1 (hours 3), Sweep (hours 60)]"
  have a: "lending_consistent ex_cart_db" by code_simp
  have b: "all_keep_consistency ?rqs ex_cart_db" by code_simp
  from lending_requests_keep_consistency[OF a b]
  have c: "copy_loan_invariant (perform_all ?rqs ex_cart_db)" by blast
  have d: "map copy_status (book_copies (perform_all ?rqs ex_cart_db)) = [AVAILABLE, AVAILABLE]"
    by code_simp
  have e: "map br_status (borrow_records (perform_all ?rqs ex_cart_db)) = [RETURNED, CANCELLED]"
    by code_simp
  from a b c d e show ?thesis by blast
qed

text \<open>The claim as it was written fails. An update that sets the status of a copy on
  the shelf to BORROWED leaves a borrowed copy with no loan. And after the sweep has
  cancelled the pending pickup of a copy and another user has borrowed the copy, the
  return at the desk of the cancelled record puts the copy on the shelf while the new
  loan is open.\<close>

theorem copy_update_breaks_invariant_counterexample:
  "copy_loan_invariant ex_cart_db
   \<and> \<not> copy_loan_invariant
         (perform (CopyUpdate 1 \<lparr>upd_status = Some BORROWED, upd_barcode = None\<rparr>) ex_cart_db)
   \<and> copy_loan_invariant ex_sweep_db
   \<and> copy_loan_invariant
         (perform_all [Sweep (hours 50), WalkInBorrow 1 20 (days 14) (hours 51) (hours 51)]
            ex_sweep_db)
   \<and> \<not> copy_loan_invariant
         (perform_all [Sweep (hours 50), WalkInBorrow 1 20 (days 14) (hours 51) (hours 51),
                       DeskReturn 1 (hours 60)] ex_sweep_db)"
  by code_simp

end
